theory Spec2Isabelle
  imports Main "HOL-Library.Word" "HOL-Library.Log_Nat"
begin

section \<open>Bytes and strings\<close>

text \<open>
  A Go string is a sequence of bytes. It is modelled by \<open>string\<close>, a list of
  \<open>char\<close>, one \<open>char\<close> per byte; a character outside ASCII is the several bytes of
  its UTF-8 encoding. Byte comparisons of the source (\<open>'0' <= c && c <= '9'\<close>) are
  comparisons of the byte values.
\<close>

definition byte :: "char \<Rightarrow> nat" where
  "byte c = of_char c"

definition isDigit :: "char \<Rightarrow> bool" where
  "isDigit c = (48 \<le> byte c \<and> byte c \<le> 57)"

definition isUpper :: "char \<Rightarrow> bool" where
  "isUpper c = (65 \<le> byte c \<and> byte c \<le> 90)"

definition isLower :: "char \<Rightarrow> bool" where
  "isLower c = (97 \<le> byte c \<and> byte c \<le> 122)"

definition isAlpha :: "char \<Rightarrow> bool" where
  "isAlpha c = (isLower c \<or> isUpper c)"

definition dot :: char where
  "dot = CHR ''.''"

section \<open>The float64 arithmetic the program uses\<close>

text \<open>
  The program computes with float64 in three places: \<open>strconv.ParseFloat\<close>, the
  products \<open>value * float64(unit)\<close>, and inside \<open>time.ParseDuration\<close> for a
  fractional part. A finite float64 is modelled by the rational number it denotes, and
  every operation is the exact result rounded to the nearest float64, ties to the even
  significand (IEEE 754 binary64: 53 bits of significand, least exponent \<open>-1074\<close>,
  overflow to infinity from \<open>2 ^ 1024\<close>). No negative number arises in this program
  (the regular expression admits no sign), so the model covers the non-negative values.
\<close>

datatype float64 = Finite rat | PosInf | NaN

definition pow2 :: "int \<Rightarrow> rat" where
  "pow2 e = (if 0 \<le> e then 2 ^ nat e else 1 / 2 ^ nat (- e))"

text \<open>\<open>flog2 q\<close> is the integer part of the binary logarithm of \<open>q > 0\<close>.\<close>

definition flog2 :: "rat \<Rightarrow> int" where
  "flog2 q = (if 1 \<le> q then bitlen \<lfloor>q\<rfloor> - 1 else - bitlen (\<lceil>1 / q\<rceil> - 1))"

definition roundEven :: "rat \<Rightarrow> int" where
  "roundEven q =
     (let f = \<lfloor>q\<rfloor>; r = q - of_int f
      in if r < 1 / 2 then f
         else if 1 / 2 < r then f + 1
         else if even f then f else f + 1)"

definition round64 :: "rat \<Rightarrow> float64" where
  "round64 q =
     (if q = 0 then Finite 0
      else let e = max (flog2 q - 52) (- 1074);
               r = of_int (roundEven (q / pow2 e)) * pow2 e
           in if 2 ^ 1024 \<le> r then PosInf else Finite r)"

definition fmul :: "float64 \<Rightarrow> float64 \<Rightarrow> float64" where
  "fmul x y =
     (case (x, y) of
        (Finite a, Finite b) \<Rightarrow> round64 (a * b)
      | (PosInf, Finite b) \<Rightarrow> (if b = 0 then NaN else PosInf)
      | (Finite a, PosInf) \<Rightarrow> (if a = 0 then NaN else PosInf)
      | (PosInf, PosInf) \<Rightarrow> PosInf
      | _ \<Rightarrow> NaN)"

definition fdiv :: "float64 \<Rightarrow> float64 \<Rightarrow> float64" where
  "fdiv x y =
     (case (x, y) of
        (Finite a, Finite b) \<Rightarrow>
          (if b = 0 then (if a = 0 then NaN else PosInf) else round64 (a / b))
      | (Finite a, PosInf) \<Rightarrow> Finite 0
      | (PosInf, Finite b) \<Rightarrow> PosInf
      | _ \<Rightarrow> NaN)"

text \<open>\<open>float64(n)\<close> for an unsigned integer \<open>n\<close>.\<close>

definition ofNat64 :: "nat \<Rightarrow> float64" where
  "ofNat64 n = round64 (of_nat n)"

text \<open>
  \<open>uint64(x)\<close> for a float64 \<open>x\<close>: the integer part. The one conversion of this kind,
  in \<open>time.ParseDuration\<close>, is of a value of at most one hour in nanoseconds (the
  source notes \<open>(f*unit/scale) <= 3.6e+12\<close>), so it is in range.
\<close>

definition toUint64 :: "float64 \<Rightarrow> nat" where
  "toUint64 x = (case x of Finite q \<Rightarrow> nat \<lfloor>q\<rfloor> mod 2 ^ 64 | _ \<Rightarrow> 0)"

section \<open>Durations\<close>

text \<open>\<open>time.Duration\<close> is an int64 count of nanoseconds; its addition wraps.\<close>

type_synonym Duration = "64 word"

definition Nanosecond :: nat where "Nanosecond = 1"

definition Microsecond :: nat where "Microsecond = 1000 * Nanosecond"

definition Millisecond :: nat where "Millisecond = 1000 * Microsecond"

definition Second :: nat where "Second = 1000 * Millisecond"

definition Minute :: nat where "Minute = 60 * Second"

definition Hour :: nat where "Hour = 60 * Minute"

text \<open>
  \<open>time.Duration(x)\<close> for a float64 \<open>x\<close>: the integer part when it fits an int64.
  Otherwise Go leaves the result to the implementation (amd64 gives the least int64,
  arm64 saturates); it is the parameter \<open>oor\<close>, a function of the value converted.
\<close>

definition toDuration :: "(float64 \<Rightarrow> Duration) \<Rightarrow> float64 \<Rightarrow> Duration" where
  "toDuration oor x =
     (case x of
        Finite q \<Rightarrow> if q < 2 ^ 63 then word_of_int \<lfloor>q\<rfloor> else oor x
      | _ \<Rightarrow> oor x)"

section \<open>Go's time.ParseDuration\<close>

text \<open>
  The standard library function that \<open>ParseDuration\<close> tries first, with its helpers
  \<open>leadingInt\<close> and \<open>leadingFraction\<close> and its unit table. The uint64 variables are
  natural numbers reduced modulo \<open>2 ^ 64\<close> where the source computes them.
\<close>

datatype time_error =
    InvalidDuration string
  | MissingUnit string
  | UnknownUnit string string

definition unitMap :: "string \<Rightarrow> nat option" where
  "unitMap = map_of
     [(''ns'', Nanosecond),
      (''us'', Microsecond),
      ([CHR 0xC2, CHR 0xB5, CHR ''s''], Microsecond),
      ([CHR 0xCE, CHR 0xBC, CHR ''s''], Microsecond),
      (''ms'', Millisecond),
      (''s'', Second),
      (''m'', Minute),
      (''h'', Hour)]"

fun leadingInt_loop :: "nat \<Rightarrow> string \<Rightarrow> (nat \<times> string) option" where
  "leadingInt_loop x [] = Some (x, [])"
| "leadingInt_loop x (c # cs) =
     (if \<not> isDigit c then Some (x, c # cs)
      else if x > 2 ^ 63 div 10 then None
      else let x' = (x * 10 + byte c - 48) mod 2 ^ 64
           in if x' > 2 ^ 63 then None else leadingInt_loop x' cs)"

definition leadingInt :: "string \<Rightarrow> (nat \<times> string) option" where
  "leadingInt s = leadingInt_loop 0 s"

fun leadingFraction_loop :: "nat \<Rightarrow> float64 \<Rightarrow> bool \<Rightarrow> string \<Rightarrow> nat \<times> float64 \<times> string" where
  "leadingFraction_loop x scale overflow [] = (x, scale, [])"
| "leadingFraction_loop x scale overflow (c # cs) =
     (if \<not> isDigit c then (x, scale, c # cs)
      else if overflow then leadingFraction_loop x scale overflow cs
      else if x > (2 ^ 63 - 1) div 10 then leadingFraction_loop x scale True cs
      else let y = (x * 10 + byte c - 48) mod 2 ^ 64
           in if y > 2 ^ 63 then leadingFraction_loop x scale True cs
              else leadingFraction_loop y (fmul scale (Finite 10)) overflow cs)"

definition leadingFraction :: "string \<Rightarrow> nat \<times> float64 \<times> string" where
  "leadingFraction s = leadingFraction_loop 0 (Finite 1) False s"

definition unitChar :: "char \<Rightarrow> bool" where
  "unitChar c = (\<not> (c = dot \<or> isDigit c))"

text \<open>
  One round of the loop of \<open>time.ParseDuration\<close> on a non-empty rest \<open>s\<close>: a number,
  an optional fraction and a unit. It yields the value \<open>v\<close> of the round in
  nanoseconds and the rest of the string. \<open>scaleElem\<close> is the second half of the
  round, from the lookup of the unit on.
\<close>

definition scaleElem :: "string \<Rightarrow> nat \<Rightarrow> nat \<Rightarrow> float64 \<Rightarrow> string \<Rightarrow> time_error + nat" where
  "scaleElem orig v f scale u =
     (case unitMap u of
        None \<Rightarrow> Inl (UnknownUnit u orig)
      | Some unit \<Rightarrow>
          (if v > 2 ^ 63 div unit then Inl (InvalidDuration orig)
           else let v1 = (v * unit) mod 2 ^ 64
                in if f > 0
                   then let v2 = (v1 + toUint64 (fmul (ofNat64 f) (fdiv (ofNat64 unit) scale))) mod 2 ^ 64
                        in (if v2 > 2 ^ 63 then Inl (InvalidDuration orig) else Inr v2)
                   else Inr v1))"

definition fractionPart :: "string \<Rightarrow> nat \<times> float64 \<times> bool \<times> string" where
  "fractionPart s1 =
     (if s1 \<noteq> [] \<and> hd s1 = dot
      then let s2 = tl s1; (f, scale, s3) = leadingFraction s2
           in (f, scale, length s2 \<noteq> length s3, s3)
      else (0, Finite 1, False, s1))"

definition parseElem :: "string \<Rightarrow> string \<Rightarrow> time_error + (nat \<times> string)" where
  "parseElem orig s =
     (if \<not> (hd s = dot \<or> isDigit (hd s)) then Inl (InvalidDuration orig)
      else (case leadingInt s of
         None \<Rightarrow> Inl (InvalidDuration orig)
       | Some (v, s1) \<Rightarrow>
          (let pre = (length s \<noteq> length s1);
               (f, scale, post, s3) = fractionPart s1
           in if \<not> pre \<and> \<not> post then Inl (InvalidDuration orig)
              else let u = takeWhile unitChar s3; rest = dropWhile unitChar s3
                   in if u = [] then Inl (MissingUnit orig)
                      else (case scaleElem orig v f scale u of
                              Inl e \<Rightarrow> Inl e
                            | Inr v' \<Rightarrow> Inr (v', rest)))))"

function durLoop :: "string \<Rightarrow> nat \<Rightarrow> string \<Rightarrow> time_error + nat" where
  "durLoop orig d s =
     (if s = [] then Inr d
      else (case parseElem orig s of
              Inl e \<Rightarrow> Inl e
            | Inr (v, rest) \<Rightarrow>
                (let d' = (d + v) mod 2 ^ 64
                 in if d' > 2 ^ 63 then Inl (InvalidDuration orig)
                    else durLoop orig d' rest)))"
  by pat_completeness auto
termination
proof -
  have li: "leadingInt_loop x s = Some (v, r) \<Longrightarrow> length r \<le> length s" for x s v r
    by (induction x s rule: leadingInt_loop.induct) (auto simp: Let_def split: if_splits)
  have lf: "leadingFraction_loop x sc ov s = (f, sc', r) \<Longrightarrow> length r \<le> length s"
    for x sc ov s f sc' r
    by (induction x sc ov s arbitrary: f sc' r rule: leadingFraction_loop.induct)
       (auto simp: Let_def split: if_splits, fastforce+)
  have fp: "fractionPart s1 = (f, sc, post, s3) \<Longrightarrow> length s3 \<le> length s1" for s1 f sc post s3
    by (auto simp: fractionPart_def leadingFraction_def Let_def split: if_splits prod.splits
             dest!: lf)
  have shorter: "length rest < length s" if pe: "parseElem orig s = Inr (v, rest)" for orig s v rest
  proof -
    from pe obtain v0 s1 f sc post s3 where
      a: "leadingInt s = Some (v0, s1)" and b: "fractionPart s1 = (f, sc, post, s3)"
      and u: "takeWhile unitChar s3 \<noteq> []" and r: "rest = dropWhile unitChar s3"
      by (auto simp: parseElem_def Let_def split: if_splits option.splits prod.splits sum.splits)
    have "length s1 \<le> length s"
      using a li by (simp add: leadingInt_def)
    moreover have "length s3 \<le> length s1"
      using b by (rule fp)
    moreover have "length (takeWhile unitChar s3) + length (dropWhile unitChar s3) = length s3"
      by (metis length_append takeWhile_dropWhile_id)
    ultimately show ?thesis using u r by (cases "takeWhile unitChar s3") auto
  qed
  show ?thesis
    by (relation "measure (\<lambda>(orig, d, s). length s)") (auto dest: shorter)
qed

declare durLoop.simps [simp del]

definition time_ParseDuration :: "string \<Rightarrow> Duration \<times> time_error option" where
  "time_ParseDuration orig =
     (let neg = (orig \<noteq> [] \<and> hd orig = CHR ''-'');
          s = (if orig \<noteq> [] \<and> (hd orig = CHR ''-'' \<or> hd orig = CHR ''+'') then tl orig else orig)
      in if s = ''0'' then (0, None)
         else if s = [] then (0, Some (InvalidDuration orig))
         else (case durLoop orig 0 s of
                 Inl e \<Rightarrow> (0, Some e)
               | Inr d \<Rightarrow>
                   if neg then (- word_of_nat d, None)
                   else if d > 2 ^ 63 - 1 then (0, Some (InvalidDuration orig))
                   else (word_of_nat d, None)))"

section \<open>Standard library functions on strings\<close>

text \<open>
  \<open>strings.Fields\<close> splits around each run of white space as \<open>unicode.IsSpace\<close>
  defines it: the six ASCII characters and U+0085, U+00A0, U+1680, U+2000 to U+200A,
  U+2028, U+2029, U+202F, U+205F, U+3000, here in their UTF-8 encodings. A byte that
  starts no such encoding belongs to a field, whether or not it is valid UTF-8.
\<close>

definition spaceRunes :: "string list" where
  "spaceRunes =
     [[CHR 0x09], [CHR 0x0A], [CHR 0x0B], [CHR 0x0C], [CHR 0x0D], [CHR 0x20],
      [CHR 0xC2, CHR 0x85], [CHR 0xC2, CHR 0xA0],
      [CHR 0xE1, CHR 0x9A, CHR 0x80],
      [CHR 0xE2, CHR 0x80, CHR 0x80], [CHR 0xE2, CHR 0x80, CHR 0x81],
      [CHR 0xE2, CHR 0x80, CHR 0x82], [CHR 0xE2, CHR 0x80, CHR 0x83],
      [CHR 0xE2, CHR 0x80, CHR 0x84], [CHR 0xE2, CHR 0x80, CHR 0x85],
      [CHR 0xE2, CHR 0x80, CHR 0x86], [CHR 0xE2, CHR 0x80, CHR 0x87],
      [CHR 0xE2, CHR 0x80, CHR 0x88], [CHR 0xE2, CHR 0x80, CHR 0x89],
      [CHR 0xE2, CHR 0x80, CHR 0x8A],
      [CHR 0xE2, CHR 0x80, CHR 0xA8], [CHR 0xE2, CHR 0x80, CHR 0xA9],
      [CHR 0xE2, CHR 0x80, CHR 0xAF],
      [CHR 0xE2, CHR 0x81, CHR 0x9F],
      [CHR 0xE3, CHR 0x80, CHR 0x80]]"

text \<open>The length of the white space character at the head of \<open>s\<close>, 0 when there is none.\<close>

definition spaceLen :: "string \<Rightarrow> nat" where
  "spaceLen s =
     (case List.find (\<lambda>w. take (length w) s = w) spaceRunes of
        None \<Rightarrow> 0
      | Some w \<Rightarrow> length w)"

function Fields_loop :: "string \<Rightarrow> string \<Rightarrow> string list" where
  "Fields_loop cur s =
     (if s = [] then (if cur = [] then [] else [cur])
      else if 0 < spaceLen s
           then (if cur = [] then [] else [cur]) @ Fields_loop [] (drop (spaceLen s) s)
           else Fields_loop (cur @ [hd s]) (tl s))"
  by pat_completeness auto
termination
  by (relation "measure (\<lambda>(cur, s). length s)") auto

declare Fields_loop.simps [simp del]

definition Fields :: "string \<Rightarrow> string list" where
  "Fields s = Fields_loop [] s"

text \<open>\<open>strings.Split(s, "\t")\<close>: the fields between tabs, one more than the tabs.\<close>

definition tab :: char where
  "tab = CHR 0x09"

fun Split_loop :: "string \<Rightarrow> string \<Rightarrow> string list" where
  "Split_loop cur [] = [cur]"
| "Split_loop cur (c # cs) =
     (if c = tab then cur # Split_loop [] cs else Split_loop (cur @ [c]) cs)"

definition Split :: "string \<Rightarrow> string list" where
  "Split s = Split_loop [] s"

text \<open>
  \<open>strings.ToLower\<close> on a string of ASCII letters, the only strings the program
  passes to it (the second group of the regular expression).
\<close>

definition lowerChar :: "char \<Rightarrow> char" where
  "lowerChar c = (if isUpper c then char_of (byte c + 32) else c)"

definition ToLower :: "string \<Rightarrow> string" where
  "ToLower s = map lowerChar s"

text \<open>
  The regular expression \<open>^([\d\.]+)\s*([a-zA-Z]+)$\<close>. Its three classes are disjoint,
  so a match is unique: the longest run of digits and dots, then the white space of the
  syntax (\<open>\s\<close> is tab, line feed, form feed, carriage return and space), then letters to
  the end. \<open>FindStringSubmatch\<close> yields the whole match and the two groups, or nothing.
\<close>

definition numChar :: "char \<Rightarrow> bool" where
  "numChar c = (isDigit c \<or> c = dot)"

definition reSpace :: "char \<Rightarrow> bool" where
  "reSpace c = (byte c = 9 \<or> byte c = 10 \<or> byte c = 12 \<or> byte c = 13 \<or> byte c = 32)"

definition FindStringSubmatch :: "string \<Rightarrow> string list" where
  "FindStringSubmatch s =
     (let g1 = takeWhile numChar s;
          g2 = dropWhile reSpace (dropWhile numChar s)
      in if g1 \<noteq> [] \<and> g2 \<noteq> [] \<and> list_all isAlpha g2 then [s, g1, g2] else [])"

text \<open>
  \<open>strconv.ParseFloat(s, 64)\<close> on a string of digits and dots, the only strings the
  program passes to it (the first group of the regular expression): a syntax error
  unless there is a digit and at most one dot; otherwise the float64 nearest to the
  decimal number, or infinity with a range error when that is out of range.
\<close>

datatype strconv_error = ErrSyntax | ErrRange

definition digitsValue :: "string \<Rightarrow> nat" where
  "digitsValue ds = foldl (\<lambda>n c. 10 * n + (byte c - 48)) 0 ds"

definition ParseFloat :: "string \<Rightarrow> float64 \<times> strconv_error option" where
  "ParseFloat s =
     (let ip = takeWhile isDigit s;
          r = dropWhile isDigit s;
          fp = (if r \<noteq> [] \<and> hd r = dot then takeWhile isDigit (tl r) else []);
          rest = (if r \<noteq> [] \<and> hd r = dot then dropWhile isDigit (tl r) else r)
      in if ip = [] \<and> fp = [] then (Finite 0, Some ErrSyntax)
         else if rest \<noteq> [] then (Finite 0, Some ErrSyntax)
         else (case round64 (of_nat (digitsValue (ip @ fp)) / 10 ^ length fp) of
                 Finite q \<Rightarrow> (Finite q, None)
               | x \<Rightarrow> (x, Some ErrRange)))"

section \<open>ParseDuration\<close>

text \<open>
  What \<open>scanner.Err()\<close> can hold: a line too long for the scanner's buffer, or the
  error of a read.
\<close>

datatype scan_error = ErrTooLong | ReadError

datatype error =
    UnsupportedFormat string
  | ValueError string strconv_error
  | UnknownTimeUnit string
  | OpenError
  | HeaderError "scan_error option"
  | ColumnNotFound
  | ScanError scan_error

text \<open>
  The \<open>switch\<close> on the unit, in the source's order. \<open>None\<close> is the \<open>default\<close> branch.
  The second alias of the microsecond is the five bytes that the source file holds
  there. The factors \<open>float64(time.Nanosecond)\<close> and so on are constants, exact in
  float64.
\<close>

definition unitDuration :: "(float64 \<Rightarrow> Duration) \<Rightarrow> string \<Rightarrow> float64 \<Rightarrow> Duration option" where
  "unitDuration oor unit v =
     (if unit \<in> set [''ns'', ''nanosecond'', ''nanoseconds'']
      then Some (toDuration oor (fmul v (Finite (of_nat Nanosecond))))
      else if unit \<in> set [''us'', [CHR 0xC3, CHR 0x82, CHR 0xC2, CHR 0xB5, CHR ''s''],
                            ''microsecond'', ''microseconds'']
      then Some (toDuration oor (fmul v (Finite (of_nat Microsecond))))
      else if unit \<in> set [''ms'', ''millisecond'', ''milliseconds'']
      then Some (toDuration oor (fmul v (Finite (of_nat Millisecond))))
      else if unit \<in> set [''s'', ''sec'', ''second'', ''seconds'']
      then Some (toDuration oor (fmul v (Finite (of_nat Second))))
      else if unit \<in> set [''m'', ''min'', ''minute'', ''minutes'']
      then Some (toDuration oor (fmul v (Finite (of_nat Minute))))
      else if unit \<in> set [''h'', ''hr'', ''hour'', ''hours'']
      then Some (toDuration oor (fmul v (Finite (of_nat Hour))))
      else if unit \<in> set [''d'', ''day'', ''days'']
      then Some (toDuration oor (fmul (fmul v (Finite 24)) (Finite (of_nat Hour))))
      else None)"

text \<open>
  The body of the loop over the parts: the duration of one part, or the error with
  which \<open>ParseDuration\<close> returns at once.
\<close>

definition parsePart :: "(float64 \<Rightarrow> Duration) \<Rightarrow> string \<Rightarrow> Duration \<times> error option" where
  "parsePart oor part =
     (case time_ParseDuration part of
        (partDuration, None) \<Rightarrow> (partDuration, None)
      | (_, Some _) \<Rightarrow>
          (let matches = FindStringSubmatch part
           in if length matches \<noteq> 3 then (0, Some (UnsupportedFormat part))
              else let valueStr = matches ! 1; unit = ToLower (matches ! 2)
                   in (case ParseFloat valueStr of
                         (_, Some e) \<Rightarrow> (0, Some (ValueError valueStr e))
                       | (v, None) \<Rightarrow>
                           (case unitDuration oor unit v of
                              None \<Rightarrow> (0, Some (UnknownTimeUnit unit))
                            | Some partDuration \<Rightarrow> (partDuration, None)))))"

fun parts_loop :: "(float64 \<Rightarrow> Duration) \<Rightarrow> Duration \<Rightarrow> string list \<Rightarrow> Duration \<times> error option" where
  "parts_loop oor totalDuration [] = (totalDuration, None)"
| "parts_loop oor totalDuration (part # parts) =
     (case parsePart oor part of
        (_, Some e) \<Rightarrow> (0, Some e)
      | (partDuration, None) \<Rightarrow> parts_loop oor (totalDuration + partDuration) parts)"

definition ParseDuration :: "(float64 \<Rightarrow> Duration) \<Rightarrow> string \<Rightarrow> Duration \<times> error option" where
  "ParseDuration oor durationStr =
     (case time_ParseDuration durationStr of
        (duration, None) \<Rightarrow> (duration, None)
      | (_, Some _) \<Rightarrow> parts_loop oor 0 (Fields durationStr))"

section \<open>Files and the line scanner\<close>

text \<open>
  A file is the bytes that reading it delivers and whether the reading ends in an I/O
  error instead of the end of the file. The file system maps a path to a file, or to
  nothing when \<open>os.Open\<close> fails.
\<close>

record osfile =
  content :: string
  readFails :: bool

type_synonym filesystem = "string \<Rightarrow> osfile option"

text \<open>
  \<open>bufio.Scanner\<close> with its default split function \<open>ScanLines\<close> and its default
  buffer: a token is a line without its line feed and without one carriage return
  before it; the last line needs no line feed; a line of \<open>MaxScanTokenSize\<close> bytes or
  more does not fit the buffer and ends the scan with \<open>ErrTooLong\<close>. \<open>scanLines\<close>
  yields the tokens that the successive calls of \<open>Scan\<close> deliver and whether the scan
  ended so.
\<close>

definition MaxScanTokenSize :: nat where
  "MaxScanTokenSize = 64 * 1024"

definition newline :: char where
  "newline = CHR 0x0A"

definition dropCR :: "string \<Rightarrow> string" where
  "dropCR l = (if l \<noteq> [] \<and> last l = CHR 0x0D then butlast l else l)"

function scanLines :: "string \<Rightarrow> string list \<times> bool" where
  "scanLines s =
     (if s = [] then ([], False)
      else let line = takeWhile (\<lambda>c. c \<noteq> newline) s
           in if MaxScanTokenSize \<le> length line then ([], True)
              else (case scanLines (drop (length line + 1) s) of
                      (ls, tooLong) \<Rightarrow> (dropCR line # ls, tooLong)))"
  by pat_completeness auto
termination
  by (relation "measure length") auto

declare scanLines.simps [simp del]

definition scannerErr :: "osfile \<Rightarrow> scan_error option" where
  "scannerErr f =
     (if snd (scanLines (content f)) then Some ErrTooLong
      else if readFails f then Some ReadError
      else None)"

section \<open>calculateTotalDuration\<close>

text \<open>What the function prints: one warning for each row whose duration does not parse.\<close>

datatype event = Warning string error

text \<open>The search of the header for the column \<open>duration\<close>; \<open>-1\<close> when there is none.\<close>

fun findDuration :: "int \<Rightarrow> string list \<Rightarrow> int" where
  "findDuration i [] = - 1"
| "findDuration i (col # columns) =
     (if col = ''duration'' then i else findDuration (i + 1) columns)"

fun rows_loop ::
  "(float64 \<Rightarrow> Duration) \<Rightarrow> int \<Rightarrow> Duration \<Rightarrow> event list \<Rightarrow> string list \<Rightarrow> Duration \<times> event list" where
  "rows_loop oor durationIdx totalDuration out [] = (totalDuration, out)"
| "rows_loop oor durationIdx totalDuration out (line # lines) =
     (let fields = Split line
      in if int (length fields) \<le> durationIdx
         then rows_loop oor durationIdx totalDuration out lines
         else let durationStr = fields ! nat durationIdx
              in (case ParseDuration oor durationStr of
                    (_, Some e) \<Rightarrow>
                      rows_loop oor durationIdx totalDuration (out @ [Warning durationStr e]) lines
                  | (duration, None) \<Rightarrow>
                      rows_loop oor durationIdx (totalDuration + duration) out lines))"

definition calculateTotalDuration ::
  "(float64 \<Rightarrow> Duration) \<Rightarrow> filesystem \<Rightarrow> string \<Rightarrow> Duration \<times> error option \<times> event list" where
  "calculateTotalDuration oor fs filePath =
     (case fs filePath of
        None \<Rightarrow> (0, Some OpenError, [])
      | Some f \<Rightarrow>
          (case fst (scanLines (content f)) of
             [] \<Rightarrow> (0, Some (HeaderError (scannerErr f)), [])
           | header # rows \<Rightarrow>
               (let columns = Split header;
                    durationIdx = findDuration 0 columns
                in if durationIdx = - 1 then (0, Some ColumnNotFound, [])
                   else (case rows_loop oor durationIdx 0 [] rows of
                           (totalDuration, out) \<Rightarrow>
                             (case scannerErr f of
                                Some e \<Rightarrow> (0, Some (ScanError e), out)
                              | None \<Rightarrow> (totalDuration, None, out))))))"

section \<open>Notions used in the statements and the proofs\<close>

text \<open>
  The bytes that can occur in a string accepted by \<open>time.ParseDuration\<close>: signs,
  digits, the dot and the bytes of its unit names.
\<close>

definition stdChar :: "char \<Rightarrow> bool" where
  "stdChar c = (numChar c \<or> c \<in> set ''+-numsh'' \<or> c \<in> set [CHR 0xC2, CHR 0xB5, CHR 0xCE, CHR 0xBC])"

text \<open>A string is free of white space when no white space character starts anywhere in it.\<close>

fun spaceFree :: "string \<Rightarrow> bool" where
  "spaceFree [] = True"
| "spaceFree (c # cs) = (spaceLen (c # cs) = 0 \<and> spaceFree cs)"

text \<open>
  The unit table of the specification (section 4.1): every alias with its factor in
  nanoseconds. The two non-ASCII aliases are the micro sign followed by \<open>s\<close> and the
  bytes the source file holds for it.
\<close>

definition specUnits :: "(string \<times> nat) list" where
  "specUnits =
     [(''ns'', 1), (''nanosecond'', 1), (''nanoseconds'', 1),
      (''us'', 1000), ([CHR 0xC2, CHR 0xB5, CHR ''s''], 1000),
      ([CHR 0xC3, CHR 0x82, CHR 0xC2, CHR 0xB5, CHR ''s''], 1000),
      (''microsecond'', 1000), (''microseconds'', 1000),
      (''ms'', 1000000), (''millisecond'', 1000000), (''milliseconds'', 1000000),
      (''s'', 1000000000), (''sec'', 1000000000), (''second'', 1000000000),
      (''seconds'', 1000000000),
      (''m'', 60000000000), (''min'', 60000000000), (''minute'', 60000000000),
      (''minutes'', 60000000000),
      (''h'', 3600000000000), (''hr'', 3600000000000), (''hour'', 3600000000000),
      (''hours'', 3600000000000),
      (''d'', 86400000000000), (''day'', 86400000000000), (''days'', 86400000000000)]"





text \<open>
  What \<open>time.ParseDuration\<close> adds for the fraction digits \<open>fp\<close> of a number under a
  unit of \<open>unit\<close> nanoseconds: \<open>uint64(float64(f) * (float64(unit) / scale))\<close>, where
  \<open>f\<close> is the digits read as a whole number and \<open>scale\<close> is 10 to the number of
  digits; nothing when \<open>f\<close> is 0.
\<close>

definition fracNanos :: "nat \<Rightarrow> string \<Rightarrow> nat" where
  "fracNanos unit fp =
     (if digitsValue fp > 0
      then toUint64 (fmul (ofNat64 (digitsValue fp)) (fdiv (ofNat64 unit) (Finite (10 ^ length fp))))
      else 0)"




text \<open>
  The duration field of a row, when the row has one; whether it parses; the warning
  the loop prints when it does not.
\<close>

definition hasField :: "int \<Rightarrow> string \<Rightarrow> bool" where
  "hasField idx row = (idx < int (length (Split row)))"

definition field :: "int \<Rightarrow> string \<Rightarrow> string" where
  "field idx row = Split row ! nat idx"

definition rowParses :: "(float64 \<Rightarrow> Duration) \<Rightarrow> int \<Rightarrow> string \<Rightarrow> bool" where
  "rowParses oor idx row = (hasField idx row \<and> snd (ParseDuration oor (field idx row)) = None)"

definition rowFails :: "(float64 \<Rightarrow> Duration) \<Rightarrow> int \<Rightarrow> string \<Rightarrow> bool" where
  "rowFails oor idx row = (hasField idx row \<and> snd (ParseDuration oor (field idx row)) \<noteq> None)"

definition rowWarning :: "(float64 \<Rightarrow> Duration) \<Rightarrow> int \<Rightarrow> string \<Rightarrow> event" where
  "rowWarning oor idx row = Warning (field idx row) (the (snd (ParseDuration oor (field idx row))))"

text \<open>
  The strict form of a token in the words of the specification: one unsigned decimal
  number (digits with at most one dot) followed by a single alphabetic unit suffix and
  nothing more. \<open>goStd\<close> holds of the strings that Go's \<open>time.ParseDuration\<close> accepts.
\<close>

definition strictToken :: "string \<Rightarrow> bool" where
  "strictToken t =
     (let num = takeWhile numChar t; unit = dropWhile numChar t
      in list_ex isDigit num \<and> count_list num dot \<le> 1 \<and> unit \<noteq> [] \<and> list_all isAlpha unit)"

definition goStd :: "string \<Rightarrow> bool" where
  "goStd t = (snd (time_ParseDuration t) = None)"

section \<open>Concrete inputs\<close>

text \<open>
  The conversion of an out-of-range float64 on amd64, for the concrete inputs below.
\<close>

definition oor_amd64 :: "float64 \<Rightarrow> Duration" where
  "oor_amd64 x = - (2 ^ 63)"

text \<open>Headers, rows and files for the concrete instances below.\<close>

definition trace_header :: string where
  "trace_header = ''id'' @ [tab] @ ''duration'' @ [tab] @ ''status''"

definition trace_row1 :: string where
  "trace_row1 = ''a'' @ [tab] @ ''1h'' @ [tab] @ ''ok''"

definition trace_row2 :: string where
  "trace_row2 = ''b'' @ [tab] @ ''30m'' @ [tab] @ ''ok''"

definition trace_file :: osfile where
  "trace_file = \<lparr>content = trace_header @ [newline] @ trace_row1 @ [newline] @ trace_row2 @ [newline],
                  readFails = False\<rparr>"

definition lines_file :: "string list \<Rightarrow> osfile" where
  "lines_file ls = \<lparr>content = concat (map (\<lambda>l. l @ [newline]) ls), readFails = False\<rparr>"

definition one_file :: "osfile \<Rightarrow> filesystem" where
  "one_file f = (\<lambda>p. if p = ''trace.txt'' then Some f else None)"

definition hdr_id_duration :: string where
  "hdr_id_duration = ''id'' @ [tab] @ ''duration''"

definition hdr_id_status :: string where
  "hdr_id_status = ''id'' @ [tab] @ ''status''"

definition hdr_two_durations :: string where
  "hdr_two_durations = ''id'' @ [tab] @ ''duration'' @ [tab] @ ''duration''"

definition row_1h :: string where
  "row_1h = ''a'' @ [tab] @ ''1h''"

definition row_xx :: string where
  "row_xx = ''b'' @ [tab] @ ''xx''"

definition row_short :: string where
  "row_short = ''c''"

definition row_30m :: string where
  "row_30m = ''d'' @ [tab] @ ''30m''"

definition row_1h_30m :: string where
  "row_1h_30m = ''a'' @ [tab] @ ''1h'' @ [tab] @ ''30m''"

definition bad_rows_file :: osfile where
  "bad_rows_file = lines_file [hdr_id_duration, row_1h, row_xx, row_short, row_30m]"

definition no_column_file :: osfile where
  "no_column_file = lines_file [hdr_id_status, row_1h]"

definition two_columns_file :: osfile where
  "two_columns_file = lines_file [hdr_two_durations, row_1h_30m]"

definition short_row_file :: osfile where
  "short_row_file = lines_file [hdr_id_duration, row_1h, row_short, row_30m]"

definition no_short_row_file :: osfile where
  "no_short_row_file = lines_file [hdr_id_duration, row_1h, row_30m]"

definition long_line_file :: osfile where
  "long_line_file = \<lparr>content = ''duration'' @ [newline] @ replicate 65536 (CHR ''a''), readFails = False\<rparr>"


section \<open>Basic facts about the library functions\<close>

lemma spaceLen_le: "spaceLen s \<le> 3"
proof (cases "List.find (\<lambda>w. take (length w) s = w) spaceRunes")
  case None
  then show ?thesis by (simp add: spaceLen_def)
next
  case (Some w)
  then have "w \<in> set spaceRunes"
    by (auto simp: find_Some_iff)
  then have "length w \<le> 3"
    by (auto simp: spaceRunes_def)
  with Some show ?thesis by (simp add: spaceLen_def)
qed

lemma spaceLen_Nil [simp]: "spaceLen [] = 0"
  by (simp add: spaceLen_def spaceRunes_def)

lemmas time_eval =
  time_ParseDuration_def durLoop.simps parseElem_def scaleElem_def fractionPart_def
  leadingInt_def leadingFraction_def unitChar_def unitMap_def dot_def isDigit_def byte_def
  Hour_def Minute_def Second_def Millisecond_def Microsecond_def Nanosecond_def

lemmas parse_eval =
  ParseDuration_def parsePart_def Fields_def Fields_loop.simps spaceLen_def spaceRunes_def
  FindStringSubmatch_def numChar_def reSpace_def isAlpha_def isLower_def isUpper_def
  ToLower_def lowerChar_def ParseFloat_def digitsValue_def unitDuration_def

section \<open>The shape of the strings that time.ParseDuration reads\<close>

lemma numChar_unitChar: "numChar c \<longleftrightarrow> \<not> unitChar c"
  by (auto simp: numChar_def unitChar_def)

lemma isDigit_not_dot: "isDigit c \<Longrightarrow> c \<noteq> dot"
  by (auto simp: isDigit_def dot_def byte_def)

lemma isAlpha_unitChar: "isAlpha c \<Longrightarrow> unitChar c"
  by (auto simp: isAlpha_def isLower_def isUpper_def unitChar_def isDigit_def dot_def byte_def)

lemma isAlpha_not_numChar: "isAlpha c \<Longrightarrow> \<not> numChar c"
  by (simp add: numChar_unitChar isAlpha_unitChar)

lemma isAlpha_not_reSpace: "isAlpha c \<Longrightarrow> \<not> reSpace c"
  by (auto simp: isAlpha_def isLower_def isUpper_def reSpace_def)

lemma takeWhile_dropWhile_unique:
  assumes "xs = p @ r" and "list_all P p" and "r = [] \<or> \<not> P (hd r)"
  shows "takeWhile P xs = p \<and> dropWhile P xs = r"
  using assms
  by (cases r) (auto simp: list_all_iff takeWhile_append1 dropWhile_append1 takeWhile_append2 dropWhile_append2)

lemma leadingInt_loop_decomp:
  "leadingInt_loop x s = Some (v, r) \<Longrightarrow>
     \<exists>ds. s = ds @ r \<and> list_all isDigit ds \<and> (r = [] \<or> \<not> isDigit (hd r))"
proof (induction x s rule: leadingInt_loop.induct)
  case (1 x)
  then show ?case by simp
next
  case (2 x c cs)
  show ?case
  proof (cases "isDigit c")
    case False
    with 2(2) show ?thesis by auto
  next
    case True
    with 2(2) obtain x' where x': "leadingInt_loop x' cs = Some (v, r)"
      and c1: "\<not> x > 2 ^ 63 div 10" and c2: "x' = (x * 10 + byte c - 48) mod 2 ^ 64" and c3: "\<not> x' > 2 ^ 63"
      by (auto simp: Let_def split: if_splits)
    from 2(1)[OF _ c1 c2 c3 x'] True obtain ds where "cs = ds @ r" "list_all isDigit ds" "r = [] \<or> \<not> isDigit (hd r)"
      by auto
    with True show ?thesis
      by (intro exI[of _ "c # ds"]) simp
  qed
qed

lemma leadingFraction_loop_decomp:
  "leadingFraction_loop x sc ov s = (f, sc', r) \<Longrightarrow>
     \<exists>ds. s = ds @ r \<and> list_all isDigit ds \<and> (r = [] \<or> \<not> isDigit (hd r))"
proof (induction x sc ov s rule: leadingFraction_loop.induct)
  case (1 x scale overflow)
  then show ?case by simp
next
  case (2 x scale overflow c cs)
  show ?case
  proof (cases "isDigit c")
    case False
    with 2(5) show ?thesis by auto
  next
    case True
    have "\<exists>ds. cs = ds @ r \<and> list_all isDigit ds \<and> (r = [] \<or> \<not> isDigit (hd r))"
      using 2 True by (auto simp: Let_def split: if_splits)
    then obtain ds where "cs = ds @ r" "list_all isDigit ds" "r = [] \<or> \<not> isDigit (hd r)"
      by auto
    with True show ?thesis
      by (intro exI[of _ "c # ds"]) simp
  qed
qed

lemma fractionPart_decomp:
  assumes "fractionPart s1 = (f, sc, post, s3)"
  shows "\<exists>p. s1 = p @ s3 \<and> list_all numChar p"
proof (cases "s1 \<noteq> [] \<and> hd s1 = dot")
  case False
  with assms show ?thesis by (auto simp: fractionPart_def)
next
  case True
  with assms have "leadingFraction (tl s1) = (f, sc, s3)"
    by (auto simp: fractionPart_def Let_def split: prod.splits)
  then obtain ds where "tl s1 = ds @ s3" "list_all isDigit ds"
    using leadingFraction_loop_decomp by (fastforce simp: leadingFraction_def)
  with True have "s1 = (dot # ds) @ s3 \<and> list_all numChar (dot # ds)"
    by (cases s1) (auto simp: numChar_def list_all_iff)
  then show ?thesis by blast
qed

lemma parseElem_decomp:
  assumes "parseElem orig s = Inr (v, rest)"
  shows "\<exists>p u. s = p @ u @ rest \<and> list_all numChar p \<and> u \<noteq> [] \<and> unitMap u \<noteq> None
            \<and> list_all unitChar u \<and> (rest = [] \<or> \<not> unitChar (hd rest))"
proof -
  from assms obtain v0 s1 f sc post s3 where
    li: "leadingInt s = Some (v0, s1)" and fp: "fractionPart s1 = (f, sc, post, s3)"
    and u: "takeWhile unitChar s3 \<noteq> []" and r: "rest = dropWhile unitChar s3"
    and um: "unitMap (takeWhile unitChar s3) \<noteq> None"
    by (auto simp: parseElem_def scaleElem_def Let_def split: if_splits option.splits prod.splits sum.splits)
  from li obtain ds where ds: "s = ds @ s1" "list_all isDigit ds"
    using leadingInt_loop_decomp by (fastforce simp: leadingInt_def)
  from fp obtain p where p: "s1 = p @ s3" "list_all numChar p"
    using fractionPart_decomp by blast
  let ?u = "takeWhile unitChar s3"
  have "s = (ds @ p) @ ?u @ rest"
    using ds p r by simp
  moreover have "list_all numChar (ds @ p)"
    using ds p by (auto simp: list_all_iff numChar_def)
  moreover have "list_all unitChar ?u"
    by (auto simp: list_all_iff dest: set_takeWhileD)
  moreover have "rest = [] \<or> \<not> unitChar (hd rest)"
    unfolding r by (metis hd_dropWhile)
  ultimately show ?thesis using u um by blast
qed

lemma numChar_stdChar: "numChar c \<Longrightarrow> stdChar c"
  by (simp add: stdChar_def)

lemma unitMap_dom: "unitMap u = Some k \<Longrightarrow>
  u \<in> set [''ns'', ''us'', [CHR 0xC2, CHR 0xB5, CHR ''s''], [CHR 0xCE, CHR 0xBC, CHR ''s''], ''ms'', ''s'', ''m'', ''h'']"
  unfolding unitMap_def by (drule map_of_SomeD) auto

lemma unitMap_stdChar:
  assumes "unitMap u = Some k" shows "list_all stdChar u"
proof -
  have "\<forall>w \<in> set [''ns'', ''us'', [CHR 0xC2, CHR 0xB5, CHR ''s''], [CHR 0xCE, CHR 0xBC, CHR ''s''], ''ms'', ''s'', ''m'', ''h'']. list_all stdChar w"
    by (simp add: stdChar_def)
  with unitMap_dom[OF assms] show ?thesis by (simp only: Ball_def) 
qed

lemma durLoop_stdChar:
  "durLoop orig d s = Inr d' \<Longrightarrow> list_all stdChar s"
proof (induction orig d s rule: durLoop.induct)
  case (1 orig d s)
  show ?case
  proof (cases "s = []")
    case True
    then show ?thesis by simp
  next
    case False
    with 1(2) obtain v rest where pe: "parseElem orig s = Inr (v, rest)"
      and le: "\<not> (d + v) mod 2 ^ 64 > 2 ^ 63"
      and dl: "durLoop orig ((d + v) mod 2 ^ 64) rest = Inr d'"
      by (subst (asm) durLoop.simps) (auto simp: Let_def split: sum.splits if_splits)
    have rest: "list_all stdChar rest"
      using 1(1)[OF False pe refl refl le dl] .
    from parseElem_decomp[OF pe] obtain p u k where
      s: "s = p @ u @ rest" and p: "list_all numChar p" and u: "unitMap u = Some k"
      by blast
    have "list_all stdChar p"
      using p by (auto simp: list_all_iff numChar_stdChar)
    with rest unitMap_stdChar[OF u] show ?thesis
      unfolding s by simp
  qed
qed

lemma time_ParseDuration_stdChar:
  assumes "snd (time_ParseDuration s) = None"
  shows "list_all stdChar s"
proof -
  let ?s = "if s \<noteq> [] \<and> (hd s = CHR ''-'' \<or> hd s = CHR ''+'') then tl s else s"
  have tail: "list_all stdChar ?s"
  proof (cases "?s = ''0''")
    case True
    show ?thesis unfolding True
      by (simp add: stdChar_def numChar_def isDigit_def byte_def)
  next
    case False
    with assms obtain d where "durLoop s 0 ?s = Inr d"
      by (auto simp: time_ParseDuration_def Let_def split: if_splits sum.splits)
    then show ?thesis by (rule durLoop_stdChar)
  qed
  show ?thesis
  proof (cases "s \<noteq> [] \<and> (hd s = CHR ''-'' \<or> hd s = CHR ''+'')")
    case True
    then have h: "stdChar (hd s)" by (auto simp: stdChar_def)
    from True tail have "list_all stdChar (tl s)" by simp
    with h True show ?thesis by (cases s) simp_all
  next
    case False
    with tail show ?thesis by simp
  qed
qed

section \<open>Fields and white space\<close>

lemma spaceLen_pos_iff:
  "0 < spaceLen s \<longleftrightarrow> (\<exists>w \<in> set spaceRunes. take (length w) s = w)"
proof
  assume "0 < spaceLen s"
  then obtain w where "List.find (\<lambda>w. take (length w) s = w) spaceRunes = Some w"
    by (auto simp: spaceLen_def split: option.splits)
  then show "\<exists>w \<in> set spaceRunes. take (length w) s = w"
    by (auto simp: find_Some_iff)
next
  assume "\<exists>w \<in> set spaceRunes. take (length w) s = w"
  then obtain w where w: "List.find (\<lambda>w. take (length w) s = w) spaceRunes = Some w"
    by (cases "List.find (\<lambda>w. take (length w) s = w) spaceRunes") (auto simp: find_None_iff)
  then have "w \<in> set spaceRunes"
    by (auto simp: find_Some_iff)
  then have "0 < length w"
    by (auto simp: spaceRunes_def)
  with w show "0 < spaceLen s" by (simp add: spaceLen_def)
qed

lemma spaceLen_append: "0 < spaceLen s \<Longrightarrow> 0 < spaceLen (s @ r)"
proof -
  assume "0 < spaceLen s"
  then obtain w where w: "w \<in> set spaceRunes" "take (length w) s = w"
    by (auto simp: spaceLen_pos_iff)
  then have "length (take (length w) s) = length w"
    by simp
  then have "length w \<le> length s"
    by simp
  with w have "take (length w) (s @ r) = w" by simp
  with w show ?thesis unfolding spaceLen_pos_iff by blast
qed

lemma spaceFree_iff: "spaceFree t \<longleftrightarrow> (\<forall>i<length t. spaceLen (drop i t) = 0)"
proof (induction t)
  case Nil
  then show ?case by simp
next
  case (Cons c cs)
  show ?case
  proof
    assume a: "spaceFree (c # cs)"
    show "\<forall>i<length (c # cs). spaceLen (drop i (c # cs)) = 0"
    proof (intro allI impI)
      fix i assume "i < length (c # cs)"
      with a Cons show "spaceLen (drop i (c # cs)) = 0"
        by (cases i) auto
    qed
  next
    assume a: "\<forall>i<length (c # cs). spaceLen (drop i (c # cs)) = 0"
    then have "spaceLen (c # cs) = 0" by fastforce
    moreover have "\<forall>i<length cs. spaceLen (drop i cs) = 0"
    proof (intro allI impI)
      fix i assume "i < length cs"
      with a have "spaceLen (drop (Suc i) (c # cs)) = 0" by (metis Suc_less_eq length_Cons)
      then show "spaceLen (drop i cs) = 0" by simp
    qed
    ultimately show "spaceFree (c # cs)" using Cons by simp
  qed
qed

lemma Fields_loop_spaceFree:
  "spaceFree t \<Longrightarrow> Fields_loop cur t = (if cur @ t = [] then [] else [cur @ t])"
proof (induction t arbitrary: cur)
  case Nil
  then show ?case by (simp add: Fields_loop.simps)
next
  case (Cons c cs)
  then have "spaceLen (c # cs) = 0" "spaceFree cs" by simp_all
  with Cons.IH[of "cur @ [c]"] show ?case
    by (subst Fields_loop.simps) simp
qed

lemma Fields_spaceFree: "spaceFree t \<Longrightarrow> t \<noteq> [] \<Longrightarrow> Fields t = [t]"
  by (simp add: Fields_def Fields_loop_spaceFree)

lemma Fields_spaceFree_length: "spaceFree t \<Longrightarrow> length (Fields t) \<le> 1"
  by (simp add: Fields_def Fields_loop_spaceFree)

lemma Fields_loop_tokens:
  assumes "\<forall>i<length cur. spaceLen (drop i cur @ s) = 0" and "t \<in> set (Fields_loop cur s)"
  shows "t \<noteq> [] \<and> spaceFree t"
  using assms
proof (induction cur s rule: Fields_loop.induct)
  case (1 cur s)
  have cur_free: "spaceFree cur"
    unfolding spaceFree_iff
  proof (intro allI impI)
    fix i assume i: "i < length cur"
    show "spaceLen (drop i cur) = 0"
    proof (rule ccontr)
      assume "spaceLen (drop i cur) \<noteq> 0"
      then have "0 < spaceLen (drop i cur @ s)" by (simp add: spaceLen_append)
      with 1(3) i show False by simp
    qed
  qed
  show ?case
  proof (cases "s = []")
    case True
    with 1(4) cur_free show ?thesis
      by (subst (asm) Fields_loop.simps) (auto split: if_splits)
  next
    case False
    show ?thesis
    proof (cases "0 < spaceLen s")
      case True
      from 1(4) False True have "t = cur \<and> cur \<noteq> [] \<or> t \<in> set (Fields_loop [] (drop (spaceLen s) s))"
        by (subst (asm) Fields_loop.simps) (auto split: if_splits)
      then show ?thesis
      proof
        assume "t = cur \<and> cur \<noteq> []"
        with cur_free show ?thesis by simp
      next
        assume "t \<in> set (Fields_loop [] (drop (spaceLen s) s))"
        with 1(1)[OF False True] show ?thesis by simp
      qed
    next
      case nosp: False
      from 1(4) False nosp have t: "t \<in> set (Fields_loop (cur @ [hd s]) (tl s))"
        by (subst (asm) Fields_loop.simps) simp
      have "\<forall>i<length (cur @ [hd s]). spaceLen (drop i (cur @ [hd s]) @ tl s) = 0"
      proof (intro allI impI)
        fix i assume i: "i < length (cur @ [hd s])"
        show "spaceLen (drop i (cur @ [hd s]) @ tl s) = 0"
        proof (cases "i < length cur")
          case True
          with 1(3) False show ?thesis by simp
        next
          case False
          with i have "i = length cur" by simp
          with nosp \<open>s \<noteq> []\<close> show ?thesis by simp
        qed
      qed
      with 1(2)[OF False nosp] t show ?thesis by blast
    qed
  qed
qed

lemma Fields_tokens: "t \<in> set (Fields s) \<Longrightarrow> t \<noteq> [] \<and> spaceFree t"
  using Fields_loop_tokens[of "[]" s t] by (simp add: Fields_def)

lemma spaceFree_by_chars:
  assumes P: "\<forall>w \<in> set spaceRunes. \<exists>c \<in> set w. \<not> P c" and s: "list_all P s"
  shows "spaceFree s"
  unfolding spaceFree_iff
proof (intro allI impI)
  fix i assume "i < length s"
  show "spaceLen (drop i s) = 0"
  proof (rule ccontr)
    assume "spaceLen (drop i s) \<noteq> 0"
    then obtain w where w: "w \<in> set spaceRunes" "take (length w) (drop i s) = w"
      by (auto simp: spaceLen_pos_iff)
    then have "set w \<subseteq> set s"
      by (metis set_drop_subset set_take_subset subset_trans)
    with s have "\<forall>c \<in> set w. P c" by (auto simp: list_all_iff)
    with P w show False by blast
  qed
qed

lemma spaceRunes_not_std: "\<forall>w \<in> set spaceRunes. \<exists>c \<in> set w. \<not> stdChar c"
  by (simp add: spaceRunes_def stdChar_def numChar_def isDigit_def dot_def byte_def)

lemma spaceRunes_not_alnum: "\<forall>w \<in> set spaceRunes. \<exists>c \<in> set w. \<not> (numChar c \<or> isAlpha c)"
  by (simp add: spaceRunes_def numChar_def isAlpha_def isUpper_def isLower_def isDigit_def dot_def byte_def)

lemma time_ParseDuration_spaceFree:
  "snd (time_ParseDuration s) = None \<Longrightarrow> spaceFree s"
  using spaceFree_by_chars[OF spaceRunes_not_std] time_ParseDuration_stdChar by blast

lemma time_ParseDuration_fields:
  assumes "2 \<le> length (Fields s)"
  shows "snd (time_ParseDuration s) \<noteq> None"
  using assms Fields_spaceFree_length time_ParseDuration_spaceFree by fastforce

section \<open>Errors of ParseDuration carry no duration\<close>

lemma parts_loop_error_zero:
  "snd (parts_loop oor tot parts) \<noteq> None \<Longrightarrow> fst (parts_loop oor tot parts) = 0"
  by (induction parts arbitrary: tot) (auto split: prod.splits option.splits)

lemma ParseDuration_fail_zero:
  "snd (ParseDuration oor s) \<noteq> None \<Longrightarrow> fst (ParseDuration oor s) = 0"
  by (auto simp: ParseDuration_def parts_loop_error_zero split: prod.splits option.splits)

text \<open>
  Claim C10. Whenever \<open>ParseDuration\<close> returns an error, the duration it returns with
  the error is zero, for every input string.
\<close>

theorem ParseDuration_error_returns_zero:
  "snd (ParseDuration oor durationStr) \<noteq> None \<Longrightarrow> fst (ParseDuration oor durationStr) = 0"
  by (rule ParseDuration_fail_zero)

theorem ParseDuration_error_returns_zero_witness:
  "snd (ParseDuration oor_amd64 ''5'') \<noteq> None \<and> fst (ParseDuration oor_amd64 ''5'') = 0"
proof -
  have h: "snd (ParseDuration oor_amd64 ''5'') \<noteq> None"
    by (simp add: parse_eval time_eval)
  from h ParseDuration_error_returns_zero [OF h] show ?thesis by simp
qed

section \<open>Single tokens\<close>

lemma parsePart_error_zero:
  "snd (parsePart oor t) \<noteq> None \<Longrightarrow> fst (parsePart oor t) = 0"
  by (auto simp: parsePart_def Let_def split: prod.splits option.splits if_splits)

lemma ParseDuration_token:
  assumes "spaceFree t" and "t \<noteq> []"
  shows "ParseDuration oor t = parsePart oor t"
proof (cases "snd (time_ParseDuration t) = None")
  case True
  then show ?thesis
    by (auto simp: ParseDuration_def parsePart_def split: prod.splits option.splits)
next
  case False
  then have "ParseDuration oor t = parts_loop oor 0 [t]"
    using assms by (auto simp: ParseDuration_def Fields_spaceFree split: prod.splits option.splits)
  also have "\<dots> = parsePart oor t"
    using parsePart_error_zero[of oor t]
    by (cases "parsePart oor t") (auto split: option.splits)
  finally show ?thesis .
qed

lemma parts_loop_all_ok:
  "\<forall>t \<in> set ts. snd (parsePart oor t) = None \<Longrightarrow>
     parts_loop oor acc ts = (acc + sum_list (map (\<lambda>t. fst (parsePart oor t)) ts), None)"
  by (induction ts arbitrary: acc) (auto split: prod.splits option.splits simp: add.assoc)

lemma ParseDuration_fields_sum:
  assumes "2 \<le> length (Fields s)"
    and "\<forall>t \<in> set (Fields s). snd (ParseDuration oor t) = None"
  shows "ParseDuration oor s = (sum_list (map (\<lambda>t. fst (ParseDuration oor t)) (Fields s)), None)"
proof -
  have tok: "ParseDuration oor t = parsePart oor t" if "t \<in> set (Fields s)" for t
    using that Fields_tokens ParseDuration_token by blast
  have "snd (time_ParseDuration s) \<noteq> None"
    using assms(1) by (rule time_ParseDuration_fields)
  then have "ParseDuration oor s = parts_loop oor 0 (Fields s)"
    by (auto simp: ParseDuration_def split: prod.splits option.splits)
  also have "\<dots> = (0 + sum_list (map (\<lambda>t. fst (parsePart oor t)) (Fields s)), None)"
    using assms(2) tok by (intro parts_loop_all_ok) simp
  also have "map (\<lambda>t. fst (parsePart oor t)) (Fields s) = map (\<lambda>t. fst (ParseDuration oor t)) (Fields s)"
    using tok by (intro map_cong) simp_all
  finally show ?thesis by simp
qed

text \<open>
  The sum of durations wraps as int64 does. When the sum of the tokens' nanoseconds as
  integers fits an int64, the result is that integer.
\<close>

lemma sint_sum_list:
  "sint (sum_list ws :: Duration) = signed_take_bit 63 (sum_list (map sint ws))"
proof (induction ws)
  case Nil
  then show ?case by simp
next
  case (Cons w ws)
  have "sint (w + sum_list ws) = signed_take_bit 63 (sint w + sint (sum_list ws))"
    by (simp add: sint_word_ariths)
  also have "\<dots> = signed_take_bit 63 (sint w + sum_list (map sint ws))"
  proof -
    have e: "signed_take_bit 63 (sint w) = sint w"
      using sint_ge[of w] sint_lt[of w] by (simp add: signed_take_bit_int_eq_self_iff)
    show ?thesis
      using signed_take_bit_add[of 63 "sint w" "sum_list (map sint ws)"]
      unfolding Cons.IH e .
  qed
  finally show ?case by simp
qed

lemma sint_sum_list_in_range:
  assumes "- (2 ^ 63) \<le> sum_list (map sint ws)" and "sum_list (map sint ws) < 2 ^ 63"
  shows "sint (sum_list ws :: Duration) = sum_list (map sint ws)"
  unfolding sint_sum_list using assms by (simp add: signed_take_bit_int_eq_self)

lemma ParseDuration_sum_in_range:
  assumes "2 \<le> length (Fields s)"
    and "\<forall>t \<in> set (Fields s). snd (ParseDuration oor t) = None"
    and "- (2 ^ 63) \<le> (\<Sum>t\<leftarrow>Fields s. sint (fst (ParseDuration oor t)))"
    and "(\<Sum>t\<leftarrow>Fields s. sint (fst (ParseDuration oor t))) < 2 ^ 63"
  shows "sint (fst (ParseDuration oor s)) = (\<Sum>t\<leftarrow>Fields s. sint (fst (ParseDuration oor t)))"
proof -
  have "ParseDuration oor s = (sum_list (map (\<lambda>t. fst (ParseDuration oor t)) (Fields s)), None)"
    using assms(1,2) by (rule ParseDuration_fields_sum)
  then show ?thesis
    using sint_sum_list_in_range[of "map (\<lambda>t. fst (ParseDuration oor t)) (Fields s)"] assms(3,4)
    by (simp add: comp_def)
qed

text \<open>
  Claim C3. For every string of two or more white-space-separated tokens, each of
  which parses to a duration on its own, \<open>ParseDuration\<close> on the whole string returns
  the sum of \<open>ParseDuration\<close> applied to each token (each token is converted, and so
  truncated, before the addition; the sum is the sum of \<open>time.Duration\<close>).
\<close>

theorem ParseDuration_sum_of_tokens:
  assumes "2 \<le> length (Fields s)"
    and "\<forall>t \<in> set (Fields s). snd (ParseDuration oor t) = None"
  shows "ParseDuration oor s = (sum_list (map (\<lambda>t. fst (ParseDuration oor t)) (Fields s)), None)"
  using assms by (rule ParseDuration_fields_sum)

lemma Fields_1h_30m: "Fields ''1h 30m'' = [''1h'', ''30m'']"
  by (simp add: Fields_def Fields_loop.simps spaceLen_def spaceRunes_def)

theorem ParseDuration_sum_of_tokens_witness:
  "Fields ''1h 30m'' = [''1h'', ''30m'']
   \<and> ParseDuration oor_amd64 ''1h'' = (3600000000000, None)
   \<and> ParseDuration oor_amd64 ''30m'' = (1800000000000, None)
   \<and> ParseDuration oor_amd64 ''1h 30m'' = (5400000000000, None)"
proof -
  have p1: "ParseDuration oor_amd64 ''1h'' = (3600000000000, None)"
    by (simp add: ParseDuration_def time_eval)
  have p2: "ParseDuration oor_amd64 ''30m'' = (1800000000000, None)"
    by (simp add: ParseDuration_def time_eval)
  have h1: "2 \<le> length (Fields ''1h 30m'')"
    by (simp add: Fields_1h_30m)
  have h2: "\<forall>t \<in> set (Fields ''1h 30m''). snd (ParseDuration oor_amd64 t) = None"
    by (simp add: Fields_1h_30m p1 p2)
  from ParseDuration_sum_of_tokens [OF h1 h2] show ?thesis
    by (simp add: Fields_1h_30m p1 p2)
qed

section \<open>Strings that no path accepts\<close>

lemma numChar_not_sign: "numChar c \<Longrightarrow> c \<noteq> CHR ''-'' \<and> c \<noteq> CHR ''+''"
  by (auto simp: numChar_def isDigit_def dot_def byte_def)

lemma isAlpha_not_sign: "isAlpha c \<Longrightarrow> c \<noteq> CHR ''-'' \<and> c \<noteq> CHR ''+''"
  by (auto simp: isAlpha_def isLower_def isUpper_def byte_def)

lemma time_ParseDuration_unsigned:
  assumes "s \<noteq> []" and "hd s \<noteq> CHR ''-''" and "hd s \<noteq> CHR ''+''" and "s \<noteq> ''0''"
  shows "time_ParseDuration s =
           (case durLoop s 0 s of
              Inl e \<Rightarrow> (0, Some e)
            | Inr d \<Rightarrow> if d > 2 ^ 63 - 1 then (0, Some (InvalidDuration s)) else (word_of_nat d, None))"
  using assms by (simp add: time_ParseDuration_def split: sum.splits)

lemma durLoop_first:
  "s \<noteq> [] \<Longrightarrow> parseElem orig s = Inl e \<Longrightarrow> durLoop orig d s = Inl e"
  by (subst durLoop.simps) simp

lemma parseElem_numChars:
  assumes "list_all numChar s"
  shows "\<exists>e. parseElem orig s = Inl e"
proof (cases "parseElem orig s")
  case (Inl e)
  then show ?thesis by blast
next
  case (Inr r)
  obtain v rest where "r = (v, rest)" by (cases r)
  with Inr parseElem_decomp[of orig s v rest] obtain p u where
    "s = p @ u @ rest" "u \<noteq> []" "list_all unitChar u"
    by blast
  with assms have "numChar (hd u) \<and> unitChar (hd u)"
    by (cases u) (auto simp: list_all_iff)
  then show ?thesis by (simp add: numChar_unitChar)
qed

lemma time_ParseDuration_numChars:
  assumes "s \<noteq> []" and "list_all numChar s" and "s \<noteq> ''0''"
  shows "snd (time_ParseDuration s) \<noteq> None"
proof -
  from assms(1,2) have "numChar (hd s)" by (cases s) auto
  then have sg: "hd s \<noteq> CHR ''-''" "hd s \<noteq> CHR ''+''"
    using numChar_not_sign by blast+
  obtain e where "parseElem s s = Inl e"
    using parseElem_numChars[OF assms(2)] by blast
  then have "durLoop s 0 s = Inl e"
    using assms(1) by (rule durLoop_first[rotated])
  then show ?thesis
    by (simp add: time_ParseDuration_unsigned[OF assms(1) sg assms(3)])
qed

lemma time_ParseDuration_alpha:
  assumes "s \<noteq> []" and "list_all isAlpha s"
  shows "snd (time_ParseDuration s) \<noteq> None"
proof -
  from assms have al: "isAlpha (hd s)" by (cases s) auto
  then have sg: "hd s \<noteq> CHR ''-''" "hd s \<noteq> CHR ''+''"
    using isAlpha_not_sign by blast+
  have z: "s \<noteq> ''0''"
    using al by (auto simp: isAlpha_def isLower_def isUpper_def byte_def)
  have "\<not> numChar (hd s)"
    using al by (rule isAlpha_not_numChar)
  then have "parseElem s s = Inl (InvalidDuration s)"
    by (simp add: parseElem_def numChar_def)
  then have "durLoop s 0 s = Inl (InvalidDuration s)"
    using assms(1) by (rule durLoop_first[rotated])
  then show ?thesis
    by (simp add: time_ParseDuration_unsigned[OF assms(1) sg z])
qed

lemma time_ParseDuration_num_unit:
  assumes num: "num \<noteq> []" "list_all numChar num"
    and u: "u \<noteq> []" "list_all isAlpha u"
    and um: "unitMap u = None"
  shows "snd (time_ParseDuration (num @ u)) \<noteq> None"
proof -
  let ?s = "num @ u"
  from num have "numChar (hd ?s)" by (cases num) auto
  then have sg: "hd ?s \<noteq> CHR ''-''" "hd ?s \<noteq> CHR ''+''"
    using numChar_not_sign by blast+
  have ne: "?s \<noteq> []" using num by simp
  have "2 \<le> length ?s"
    using num(1) u(1) by (cases num; cases u) auto
  note this
  have z: "?s \<noteq> ''0''"
  proof
    assume a: "?s = ''0''"
    have "length ?s = length ''0''" by (simp only: a)
    with \<open>2 \<le> length ?s\<close> show False by simp
  qed
  have uc: "list_all unitChar u"
    using u(2) by (auto simp: list_all_iff isAlpha_unitChar)
  have hu: "\<not> numChar (hd u)"
    using u by (cases u) (auto simp: isAlpha_not_numChar)
  have "\<exists>e. parseElem ?s ?s = Inl e"
  proof (cases "parseElem ?s ?s")
    case (Inl e)
    then show ?thesis by blast
  next
    case (Inr r)
    obtain v rest where "r = (v, rest)" by (cases r)
    with Inr parseElem_decomp[of ?s ?s v rest] obtain p u' where
      d: "?s = p @ u' @ rest" "list_all numChar p" "u' \<noteq> []" "unitMap u' \<noteq> None"
         "list_all unitChar u'" "rest = [] \<or> \<not> unitChar (hd rest)"
      by blast
    have "\<not> numChar (hd (u' @ rest))"
      using d(3,5) by (cases u') (auto simp: numChar_unitChar)
    then have "takeWhile numChar ?s = p \<and> dropWhile numChar ?s = u' @ rest"
      using d(1,2,3) by (intro takeWhile_dropWhile_unique) auto
    moreover have "takeWhile numChar ?s = num \<and> dropWhile numChar ?s = u"
      using num(2) hu by (intro takeWhile_dropWhile_unique) auto
    ultimately have ur: "u = u' @ rest" by simp
    have "takeWhile unitChar u = u' \<and> dropWhile unitChar u = rest"
      using ur d(5,6) by (intro takeWhile_dropWhile_unique) auto
    moreover have "takeWhile unitChar u = u"
      using uc by (simp add: list_all_iff)
    ultimately have "u' = u" by simp
    with d(4) um show ?thesis by simp
  qed
  then obtain e where "parseElem ?s ?s = Inl e" by blast
  then have "durLoop ?s 0 ?s = Inl e"
    using ne by (rule durLoop_first[rotated])
  then show ?thesis
    by (simp add: time_ParseDuration_unsigned[OF ne sg z])
qed

lemma parsePart_regex:
  assumes "snd (time_ParseDuration part) \<noteq> None"
  shows "parsePart oor part =
     (let matches = FindStringSubmatch part
      in if length matches \<noteq> 3 then (0, Some (UnsupportedFormat part))
         else let valueStr = matches ! 1; unit = ToLower (matches ! 2)
              in (case ParseFloat valueStr of
                    (_, Some e) \<Rightarrow> (0, Some (ValueError valueStr e))
                  | (v, None) \<Rightarrow>
                      (case unitDuration oor unit v of
                         None \<Rightarrow> (0, Some (UnknownTimeUnit unit))
                       | Some partDuration \<Rightarrow> (partDuration, None))))"
  using assms by (auto simp: parsePart_def split: prod.splits option.splits)

lemma FindStringSubmatch_num_unit:
  assumes "num \<noteq> []" "list_all numChar num" "u \<noteq> []" "list_all isAlpha u"
  shows "FindStringSubmatch (num @ u) = [num @ u, num, u]"
proof -
  have hu: "\<not> numChar (hd u)" "\<not> reSpace (hd u)"
    using assms(3,4) by (cases u; auto simp: isAlpha_not_numChar isAlpha_not_reSpace)+
  have "takeWhile numChar (num @ u) = num \<and> dropWhile numChar (num @ u) = u"
    using assms(2) hu by (intro takeWhile_dropWhile_unique) auto
  moreover have "dropWhile reSpace u = u"
    using hu assms(3) by (cases u) auto
  ultimately show ?thesis
    using assms by (simp add: FindStringSubmatch_def)
qed

lemma FindStringSubmatch_numChars:
  assumes "list_all numChar s"
  shows "FindStringSubmatch s = []"
proof -
  have d: "dropWhile numChar s = []"
    using assms by (simp add: list_all_iff)
  show ?thesis unfolding FindStringSubmatch_def Let_def d by simp
qed

lemma FindStringSubmatch_alpha:
  assumes "s \<noteq> []" "list_all isAlpha s"
  shows "FindStringSubmatch s = []"
proof -
  have "\<not> numChar (hd s)"
    using assms by (cases s) (auto simp: isAlpha_not_numChar)
  then have "takeWhile numChar s = []"
    using assms(1) by (cases s) auto
  then show ?thesis by (simp add: FindStringSubmatch_def)
qed

lemma alnum_spaceFree:
  "list_all (\<lambda>c. numChar c \<or> isAlpha c) s \<Longrightarrow> spaceFree s"
  by (rule spaceFree_by_chars[OF spaceRunes_not_alnum])

lemma unitDuration_unknown:
  "map_of specUnits x = None \<Longrightarrow> unitDuration oor x v = None"
  by (simp add: specUnits_def unitDuration_def split: if_splits)

lemma unitMap_alpha_known:
  assumes "unitMap u = Some k" and "list_all isAlpha u"
  shows "map_of specUnits (ToLower u) = Some k"
proof -
  from unitMap_dom[OF assms(1)] have
    "u = ''ns'' \<or> u = ''us'' \<or> u = [CHR 0xC2, CHR 0xB5, CHR ''s''] \<or> u = [CHR 0xCE, CHR 0xBC, CHR ''s'']
      \<or> u = ''ms'' \<or> u = ''s'' \<or> u = ''m'' \<or> u = ''h''"
    by simp
  then show ?thesis
    using assms
    by (elim disjE)
       (simp_all add: specUnits_def ToLower_def lowerChar_def isUpper_def isLower_def isAlpha_def byte_def
          unitMap_def Hour_def Minute_def Second_def Millisecond_def Microsecond_def Nanosecond_def)
qed

lemma ParseDuration_numChars:
  assumes "s \<noteq> []" and "list_all numChar s" and "s \<noteq> ''0''"
  shows "ParseDuration oor s = (0, Some (UnsupportedFormat s))"
proof -
  have t: "snd (time_ParseDuration s) \<noteq> None"
    using assms by (rule time_ParseDuration_numChars)
  have "spaceFree s"
    using assms(2) by (intro alnum_spaceFree) (auto simp: list_all_iff)
  then have "ParseDuration oor s = parsePart oor s"
    using assms(1) by (rule ParseDuration_token)
  also have "\<dots> = (0, Some (UnsupportedFormat s))"
    by (simp add: parsePart_regex[OF t] FindStringSubmatch_numChars[OF assms(2)])
  finally show ?thesis .
qed

lemma ParseDuration_alpha:
  assumes "s \<noteq> []" and "list_all isAlpha s"
  shows "ParseDuration oor s = (0, Some (UnsupportedFormat s))"
proof -
  have t: "snd (time_ParseDuration s) \<noteq> None"
    using assms by (rule time_ParseDuration_alpha)
  have "spaceFree s"
    using assms(2) by (intro alnum_spaceFree) (auto simp: list_all_iff)
  then have "ParseDuration oor s = parsePart oor s"
    using assms(1) by (rule ParseDuration_token)
  also have "\<dots> = (0, Some (UnsupportedFormat s))"
    by (simp add: parsePart_regex[OF t] FindStringSubmatch_alpha[OF assms])
  finally show ?thesis .
qed

lemma ParseDuration_num_unit:
  assumes num: "num \<noteq> []" "list_all numChar num"
    and u: "u \<noteq> []" "list_all isAlpha u"
    and um: "unitMap u = None"
  shows "ParseDuration oor (num @ u) =
     (case ParseFloat num of
        (_, Some e) \<Rightarrow> (0, Some (ValueError num e))
      | (v, None) \<Rightarrow>
          (case unitDuration oor (ToLower u) v of
             None \<Rightarrow> (0, Some (UnknownTimeUnit (ToLower u)))
           | Some partDuration \<Rightarrow> (partDuration, None)))"
proof -
  have t: "snd (time_ParseDuration (num @ u)) \<noteq> None"
    using assms by (rule time_ParseDuration_num_unit)
  have "spaceFree (num @ u)"
    using num(2) u(2) by (intro alnum_spaceFree) (auto simp: list_all_iff)
  then have "ParseDuration oor (num @ u) = parsePart oor (num @ u)"
    using num(1) by (intro ParseDuration_token) simp_all
  also have "\<dots> = (case ParseFloat num of
        (_, Some e) \<Rightarrow> (0, Some (ValueError num e))
      | (v, None) \<Rightarrow>
          (case unitDuration oor (ToLower u) v of
             None \<Rightarrow> (0, Some (UnknownTimeUnit (ToLower u)))
           | Some partDuration \<Rightarrow> (partDuration, None)))"
    by (simp add: parsePart_regex[OF t] FindStringSubmatch_num_unit[OF num u] Let_def)
  finally show ?thesis .
qed

lemma ParseDuration_unknown_unit:
  assumes num: "num \<noteq> []" "list_all numChar num"
    and u: "u \<noteq> []" "list_all isAlpha u"
    and un: "map_of specUnits (ToLower u) = None"
  shows "ParseDuration oor (num @ u) =
     (case snd (ParseFloat num) of
        Some e \<Rightarrow> (0, Some (ValueError num e))
      | None \<Rightarrow> (0, Some (UnknownTimeUnit (ToLower u))))"
proof -
  have "unitMap u = None"
    using unitMap_alpha_known[OF _ u(2)] un by (cases "unitMap u") auto
  then show ?thesis
    by (simp add: ParseDuration_num_unit[OF num u] unitDuration_unknown[OF un]
             split: prod.splits option.splits)
qed

lemma ParseDuration_empty: "ParseDuration oor [] = (0, None)"
  by (simp add: ParseDuration_def time_ParseDuration_def Fields_def Fields_loop.simps)

text \<open>
  Claim C1, as the code has it. \<open>ParseDuration\<close> fails on every bare number other than
  \<open>0\<close>, on every unit with no number and on every number followed by an unrecognized
  alphabetic unit; a failure returns the duration zero. (Go's own parser reads the
  string \<open>0\<close> as the zero duration, and \<open>ParseDuration\<close> tries it first.)
\<close>

theorem ParseDuration_rejects:
  "(s1 \<noteq> [] \<and> list_all numChar s1 \<and> s1 \<noteq> ''0''
      \<longrightarrow> ParseDuration oor s1 = (0, Some (UnsupportedFormat s1)))
   \<and> (s2 \<noteq> [] \<and> list_all isAlpha s2
      \<longrightarrow> ParseDuration oor s2 = (0, Some (UnsupportedFormat s2)))
   \<and> (num \<noteq> [] \<and> list_all numChar num \<and> u \<noteq> [] \<and> list_all isAlpha u
        \<and> map_of specUnits (ToLower u) = None
      \<longrightarrow> ParseDuration oor (num @ u) =
            (case snd (ParseFloat num) of
               Some e \<Rightarrow> (0, Some (ValueError num e))
             | None \<Rightarrow> (0, Some (UnknownTimeUnit (ToLower u)))))
   \<and> (snd (ParseDuration oor s4) \<noteq> None \<longrightarrow> fst (ParseDuration oor s4) = 0)"
  using ParseDuration_numChars ParseDuration_alpha ParseDuration_unknown_unit ParseDuration_fail_zero
  by blast

theorem ParseDuration_rejects_witness:
  "ParseDuration oor_amd64 ''5'' = (0, Some (UnsupportedFormat ''5''))
   \<and> ParseDuration oor_amd64 ''abc'' = (0, Some (UnsupportedFormat ''abc''))
   \<and> ParseDuration oor_amd64 ''5xyz'' = (0, Some (UnknownTimeUnit ''xyz''))
   \<and> snd (ParseDuration oor_amd64 ''5xyz'') \<noteq> None \<and> fst (ParseDuration oor_amd64 ''5xyz'') = 0"
proof -
  have c: "numChar (CHR ''5'')" "isAlpha (CHR ''a'')" "isAlpha (CHR ''b'')" "isAlpha (CHR ''c'')"
    "isAlpha (CHR ''x'')" "isAlpha (CHR ''y'')" "isAlpha (CHR ''z'')"
    by (simp_all add: numChar_def isDigit_def isAlpha_def isLower_def byte_def)
  have l: "ToLower ''xyz'' = ''xyz''"
    by (simp add: ToLower_def lowerChar_def isUpper_def byte_def)
  have m: "map_of specUnits ''xyz'' = None"
    by (simp add: specUnits_def)
  have f: "snd (ParseFloat ''5'') = None"
    by (simp add: ParseFloat_def isDigit_def byte_def digitsValue_def round64_def flog2_def
        compute_bitlen pow2_def roundEven_def Let_def)
  from ParseDuration_rejects [of "''5''" oor_amd64 "''abc''" "''5''" "''xyz''" "''5xyz''"] c l m f
  show ?thesis by simp
qed

text \<open>
  The claim as stated fails at the bare number \<open>0\<close>, which parses to zero, and at
  the empty string, for which the loop over the parts has nothing to reject.
\<close>

theorem ParseDuration_bare_zero_accepted:
  "list_all numChar ''0'' \<and> ParseDuration oor_amd64 ''0'' = (0, None)
   \<and> ParseDuration oor_amd64 [] = (0, None)"
  by (simp add: numChar_def isDigit_def byte_def ParseDuration_def time_ParseDuration_def
        Fields_def Fields_loop.simps)

section \<open>The aggregation\<close>

lemma findDuration_ge: "findDuration i cols \<noteq> - 1 \<Longrightarrow> 0 \<le> i \<Longrightarrow> i \<le> findDuration i cols"
  by (induction i cols rule: findDuration.induct) (auto split: if_splits)

lemma findDuration_first:
  "0 \<le> i \<Longrightarrow> findDuration i cols =
     (if ''duration'' \<in> set cols then i + int (length (takeWhile (\<lambda>c. c \<noteq> ''duration'') cols)) else - 1)"
  by (induction i cols rule: findDuration.induct) auto

lemma findDuration_absent: "''duration'' \<notin> set cols \<Longrightarrow> findDuration 0 cols = - 1"
  by (simp add: findDuration_first)

lemma findDuration_present:
  "''duration'' \<in> set cols \<Longrightarrow>
     findDuration 0 cols = int (length (takeWhile (\<lambda>c. c \<noteq> ''duration'') cols))"
  by (simp add: findDuration_first)

text \<open>
  Claim C5. For a file whose header line is \<open>id<TAB>duration<TAB>status\<close> and whose two
  data rows are \<open>a<TAB>1h<TAB>ok\<close> and \<open>b<TAB>30m<TAB>ok\<close>, \<open>calculateTotalDuration\<close>
  returns a total of exactly 90 minutes and no error (and prints nothing).
\<close>

theorem calculateTotalDuration_ninety_minutes:
  assumes "fs filePath = Some f"
    and "scanLines (content f) = ([trace_header, trace_row1, trace_row2], False)"
    and "\<not> readFails f"
  shows "calculateTotalDuration oor fs filePath = (word_of_nat (90 * Minute), None, [])"
proof -
  have p1: "ParseDuration oor ''1h'' = (3600000000000, None)"
    by (simp add: ParseDuration_def time_eval)
  have p2: "ParseDuration oor ''30m'' = (1800000000000, None)"
    by (simp add: ParseDuration_def time_eval)
  have s0: "Split trace_header = [''id'', ''duration'', ''status'']"
    by (simp add: Split_def trace_header_def tab_def)
  have s1: "Split trace_row1 = [''a'', ''1h'', ''ok'']"
    by (simp add: Split_def trace_row1_def tab_def)
  have s2: "Split trace_row2 = [''b'', ''30m'', ''ok'']"
    by (simp add: Split_def trace_row2_def tab_def)
  have r: "rows_loop oor 1 0 [] [trace_row1, trace_row2] = (5400000000000, [])"
    by (simp add: s1 s2 p1 p2)
  have fd: "findDuration 0 (Split trace_header) = 1"
    by (simp add: s0)
  show ?thesis
    using assms by (simp add: calculateTotalDuration_def scannerErr_def fd r Minute_def Second_def
        Millisecond_def Microsecond_def Nanosecond_def del: rows_loop.simps)
qed

lemma scanLines_trace_file:
  "scanLines (content trace_file) = ([trace_header, trace_row1, trace_row2], False)"
  by (simp add: trace_file_def trace_header_def trace_row1_def trace_row2_def scanLines.simps
      newline_def tab_def MaxScanTokenSize_def dropCR_def)

theorem calculateTotalDuration_ninety_minutes_witness:
  "calculateTotalDuration oor_amd64 (\<lambda>p. if p = ''trace.txt'' then Some trace_file else None) ''trace.txt''
     = (5400000000000, None, [])"
proof -
  have r: "\<not> readFails trace_file" by (simp add: trace_file_def)
  have "(if ''trace.txt'' = ''trace.txt'' then Some trace_file else None) = Some trace_file" by simp
  from calculateTotalDuration_ninety_minutes [of "\<lambda>p. if p = ''trace.txt'' then Some trace_file else None",
      OF this scanLines_trace_file r, of oor_amd64]
  show ?thesis
    by (simp add: Minute_def Second_def Millisecond_def Microsecond_def Nanosecond_def)
qed

lemma rows_loop_short:
  "int (length (Split row)) \<le> idx \<Longrightarrow>
     rows_loop oor idx tot out (row # rows) = rows_loop oor idx tot out rows"
  by simp

lemma rows_loop_append:
  "rows_loop oor idx tot out (xs @ ys) =
     (case rows_loop oor idx tot out xs of (t, out') \<Rightarrow> rows_loop oor idx t out' ys)"
  by (induction xs arbitrary: tot out) (auto simp: Let_def split: prod.splits option.splits)

lemma rows_loop_skip:
  assumes "int (length (Split row)) \<le> idx"
  shows "rows_loop oor idx tot out (pre @ row # post) = rows_loop oor idx tot out (pre @ post)"
proof -
  obtain t out' where p: "rows_loop oor idx tot out pre = (t, out')"
    by (cases "rows_loop oor idx tot out pre")
  have "rows_loop oor idx tot out (pre @ row # post) = rows_loop oor idx t out' (row # post)"
    by (simp add: rows_loop_append p del: rows_loop.simps)
  also have "\<dots> = rows_loop oor idx t out' post"
    using assms by (rule rows_loop_short)
  also have "\<dots> = rows_loop oor idx tot out (pre @ post)"
    by (simp add: rows_loop_append p del: rows_loop.simps)
  finally show ?thesis .
qed

lemma rows_loop_closed:
  "rows_loop oor idx tot out rows =
     (tot + sum_list (map (\<lambda>row. fst (ParseDuration oor (field idx row))) (filter (rowParses oor idx) rows)),
      out @ map (rowWarning oor idx) (filter (rowFails oor idx) rows))"
proof (induction rows arbitrary: tot out)
  case Nil
  then show ?case by simp
next
  case (Cons row rows)
  show ?case
  proof (cases "hasField idx row")
    case False
    then have "int (length (Split row)) \<le> idx" by (simp add: hasField_def)
    then have "rows_loop oor idx tot out (row # rows) = rows_loop oor idx tot out rows"
      by (rule rows_loop_short)
    with False Cons.IH[of tot out] show ?thesis
      by (simp add: rowParses_def rowFails_def del: rows_loop.simps)
  next
    case True
    then have l: "\<not> int (length (Split row)) \<le> idx" by (simp add: hasField_def)
    obtain d e where pd: "ParseDuration oor (field idx row) = (d, e)"
      by (cases "ParseDuration oor (field idx row)")
    show ?thesis
    proof (cases e)
      case None
      with pd l have "rows_loop oor idx tot out (row # rows) = rows_loop oor idx (tot + d) out rows"
        by (simp add: field_def)
      with True pd None Cons.IH[of "tot + d" out] show ?thesis
        by (simp add: rowParses_def rowFails_def add.assoc del: rows_loop.simps)
    next
      case (Some err)
      with pd l have "rows_loop oor idx tot out (row # rows)
          = rows_loop oor idx tot (out @ [Warning (field idx row) err]) rows"
        by (simp add: field_def)
      with True pd Some Cons.IH[of tot "out @ [Warning (field idx row) err]"] show ?thesis
        by (simp add: rowParses_def rowFails_def rowWarning_def del: rows_loop.simps)
    qed
  qed
qed

lemma calculateTotalDuration_opened:
  assumes "fs filePath = Some f" and "fst (scanLines (content f)) = header # rows"
  shows "calculateTotalDuration oor fs filePath =
     (let durationIdx = findDuration 0 (Split header)
      in if durationIdx = - 1 then (0, Some ColumnNotFound, [])
         else (case rows_loop oor durationIdx 0 [] rows of
                 (totalDuration, out) \<Rightarrow>
                   (case scannerErr f of
                      Some e \<Rightarrow> (0, Some (ScanError e), out)
                    | None \<Rightarrow> (totalDuration, None, out))))"
  using assms by (simp add: calculateTotalDuration_def Let_def)

lemmas rows_eval =
  hdr_id_duration_def hdr_id_status_def hdr_two_durations_def row_1h_def row_xx_def
  row_short_def row_30m_def row_1h_30m_def

lemma Split_rows:
  "Split hdr_id_duration = [''id'', ''duration'']"
  "Split hdr_id_status = [''id'', ''status'']"
  "Split hdr_two_durations = [''id'', ''duration'', ''duration'']"
  "Split row_1h = [''a'', ''1h'']"
  "Split row_xx = [''b'', ''xx'']"
  "Split row_short = [''c'']"
  "Split row_30m = [''d'', ''30m'']"
  "Split row_1h_30m = [''a'', ''1h'', ''30m'']"
  by (simp_all add: Split_def tab_def rows_eval)

lemmas scan_eval =
  lines_file_def scanLines.simps newline_def tab_def MaxScanTokenSize_def dropCR_def
  scannerErr_def one_file_def

lemma ParseDuration_1h: "ParseDuration oor ''1h'' = (3600000000000, None)"
  by (simp add: ParseDuration_def time_eval)

lemma ParseDuration_30m: "ParseDuration oor ''30m'' = (1800000000000, None)"
  by (simp add: ParseDuration_def time_eval)

lemma ParseDuration_xx: "ParseDuration oor ''xx'' = (0, Some (UnsupportedFormat ''xx''))"
  by (rule ParseDuration_alpha) (simp_all add: isAlpha_def isLower_def byte_def)

text \<open>
  Claim C6. For every file that can be read and whose header has a \<open>duration\<close> column,
  a row whose duration field fails to parse does not abort the aggregation: the result
  carries no error, the total is the sum of the parsed durations of exactly the rows
  whose duration field parses, and one warning is printed for each row whose duration
  field does not parse.
\<close>

theorem calculateTotalDuration_tolerates_bad_rows:
  assumes "fs filePath = Some f"
    and "fst (scanLines (content f)) = header # rows"
    and "scannerErr f = None"
    and "findDuration 0 (Split header) = idx"
    and "idx \<noteq> - 1"
  shows "calculateTotalDuration oor fs filePath =
     (sum_list (map (\<lambda>row. fst (ParseDuration oor (field idx row))) (filter (rowParses oor idx) rows)),
      None,
      map (rowWarning oor idx) (filter (rowFails oor idx) rows))"
  using assms(3,4,5)
  by (simp add: calculateTotalDuration_opened[where fs=fs and filePath=filePath, OF assms(1,2)] rows_loop_closed[of oor idx 0 "[]" rows])

theorem calculateTotalDuration_tolerates_bad_rows_witness:
  "calculateTotalDuration oor_amd64 (one_file bad_rows_file) ''trace.txt''
     = (5400000000000, None, [Warning ''xx'' (UnsupportedFormat ''xx'')])"
proof -
  let ?rows = "[row_1h, row_xx, row_short, row_30m]"
  have h1: "one_file bad_rows_file ''trace.txt'' = Some bad_rows_file"
    by (simp add: one_file_def)
  have h2: "fst (scanLines (content bad_rows_file)) = hdr_id_duration # ?rows"
    by (simp add: bad_rows_file_def scan_eval rows_eval)
  have h3: "scannerErr bad_rows_file = None"
    by (simp add: bad_rows_file_def scan_eval rows_eval)
  have h4: "findDuration 0 (Split hdr_id_duration) = 1"
    by (simp add: Split_rows)
  have h5: "(1::int) \<noteq> - 1" by simp
  note s = Split_rows
  from calculateTotalDuration_tolerates_bad_rows [where fs="one_file bad_rows_file" and filePath="''trace.txt''" and oor=oor_amd64, OF h1 h2 h3 h4 h5]
  show ?thesis
    by (simp add: rowParses_def rowFails_def rowWarning_def hasField_def field_def s
        ParseDuration_1h ParseDuration_30m ParseDuration_xx)
qed

lemma length_takeWhile_member:
  "x \<in> set xs \<Longrightarrow> \<not> P x \<Longrightarrow> length (takeWhile P xs) < length xs"
  by (induction xs) auto

text \<open>
  Claim C7. For every file whose header line, split on tab, has no field \<open>duration\<close>,
  \<open>calculateTotalDuration\<close> fails with the error "duration column not found" and a zero
  total, and prints nothing; when the header has such a field, the index used for the
  rows is the index of the first one.
\<close>

theorem calculateTotalDuration_duration_column:
  assumes "fs filePath = Some f"
    and "fst (scanLines (content f)) = header # rows"
  shows "(''duration'' \<notin> set (Split header) \<longrightarrow>
            calculateTotalDuration oor fs filePath = (0, Some ColumnNotFound, []))
       \<and> (''duration'' \<in> set (Split header) \<longrightarrow>
            (let i = length (takeWhile (\<lambda>c. c \<noteq> ''duration'') (Split header))
             in i < length (Split header) \<and> Split header ! i = ''duration''
                \<and> (\<forall>j<i. Split header ! j \<noteq> ''duration'')
                \<and> calculateTotalDuration oor fs filePath =
                    (case rows_loop oor (int i) 0 [] rows of
                       (totalDuration, out) \<Rightarrow>
                         (case scannerErr f of
                            Some e \<Rightarrow> (0, Some (ScanError e), out)
                          | None \<Rightarrow> (totalDuration, None, out)))))"
proof (intro conjI impI)
  assume "''duration'' \<notin> set (Split header)"
  then show "calculateTotalDuration oor fs filePath = (0, Some ColumnNotFound, [])"
    by (simp add: calculateTotalDuration_opened[where fs=fs and filePath=filePath, OF assms] findDuration_absent)
next
  assume a: "''duration'' \<in> set (Split header)"
  let ?i = "length (takeWhile (\<lambda>c. c \<noteq> ''duration'') (Split header))"
  have 1: "?i < length (Split header)"
    using a by (intro length_takeWhile_member[of "''duration''"]) simp_all
  have 2: "Split header ! ?i = ''duration''"
    using a nth_length_takeWhile[of "\<lambda>c. c \<noteq> ''duration''" "Split header"] 1 by blast
  have 3: "\<forall>j<?i. Split header ! j \<noteq> ''duration''"
    using nth_mem set_takeWhileD takeWhile_nth by (metis (mono_tags, lifting))
  have 4: "calculateTotalDuration oor fs filePath =
                    (case rows_loop oor (int ?i) 0 [] rows of
                       (totalDuration, out) \<Rightarrow>
                         (case scannerErr f of
                            Some e \<Rightarrow> (0, Some (ScanError e), out)
                          | None \<Rightarrow> (totalDuration, None, out)))"
    by (simp add: calculateTotalDuration_opened[where fs=fs and filePath=filePath, OF assms] findDuration_present[OF a])
  from 1 2 3 4 show "let i = ?i
             in i < length (Split header) \<and> Split header ! i = ''duration''
                \<and> (\<forall>j<i. Split header ! j \<noteq> ''duration'')
                \<and> calculateTotalDuration oor fs filePath =
                    (case rows_loop oor (int i) 0 [] rows of
                       (totalDuration, out) \<Rightarrow>
                         (case scannerErr f of
                            Some e \<Rightarrow> (0, Some (ScanError e), out)
                          | None \<Rightarrow> (totalDuration, None, out)))"
    unfolding Let_def by blast
qed

theorem calculateTotalDuration_duration_column_witness:
  "calculateTotalDuration oor_amd64 (one_file no_column_file) ''trace.txt'' = (0, Some ColumnNotFound, [])
   \<and> calculateTotalDuration oor_amd64 (one_file two_columns_file) ''trace.txt'' = (3600000000000, None, [])"
proof -
  have a1: "one_file no_column_file ''trace.txt'' = Some no_column_file"
    by (simp add: one_file_def)
  have a2: "fst (scanLines (content no_column_file)) = [hdr_id_status, row_1h]"
    by (simp add: no_column_file_def scan_eval rows_eval)
  note a3 = Split_rows
  have b1: "one_file two_columns_file ''trace.txt'' = Some two_columns_file"
    by (simp add: one_file_def)
  have b2: "fst (scanLines (content two_columns_file)) = [hdr_two_durations, row_1h_30m]"
    by (simp add: two_columns_file_def scan_eval rows_eval)
  note b3 = Split_rows
  note b4 = Split_rows
  have b5: "scannerErr two_columns_file = None"
    by (simp add: two_columns_file_def scan_eval rows_eval)
  from calculateTotalDuration_duration_column [where fs="one_file no_column_file" and filePath="''trace.txt''" and oor=oor_amd64, OF a1 a2]
  have "calculateTotalDuration oor_amd64 (one_file no_column_file) ''trace.txt'' = (0, Some ColumnNotFound, [])"
    by (simp add: a3)
  moreover from calculateTotalDuration_duration_column [where fs="one_file two_columns_file" and filePath="''trace.txt''" and oor=oor_amd64, OF b1 b2]
  have "calculateTotalDuration oor_amd64 (one_file two_columns_file) ''trace.txt'' = (3600000000000, None, [])"
    by (simp add: b3 b4 b5 ParseDuration_1h)
  ultimately show ?thesis by simp
qed

text \<open>
  Claim C8. A data row with at most \<open>durationIdx\<close> fields is skipped silently: the
  result of \<open>calculateTotalDuration\<close> (total, error and warnings) is the result for the
  file without that row.
\<close>

theorem calculateTotalDuration_skips_short_rows:
  assumes "fs filePath = Some f"
    and "fs' filePath' = Some f'"
    and "fst (scanLines (content f)) = header # pre @ row # post"
    and "fst (scanLines (content f')) = header # pre @ post"
    and "scannerErr f = scannerErr f'"
    and "int (length (Split row)) \<le> findDuration 0 (Split header)"
  shows "calculateTotalDuration oor fs filePath = calculateTotalDuration oor fs' filePath'"
  using assms(5)
  by (simp add: calculateTotalDuration_opened[where fs=fs and filePath=filePath, OF assms(1,3)]
      calculateTotalDuration_opened[where fs=fs' and filePath=filePath', OF assms(2,4)]
      rows_loop_skip[OF assms(6)] Let_def)

theorem calculateTotalDuration_skips_short_rows_witness:
  "int (length (Split row_short)) \<le> findDuration 0 (Split hdr_id_duration)
   \<and> calculateTotalDuration oor_amd64 (one_file short_row_file) ''trace.txt''
       = calculateTotalDuration oor_amd64 (one_file no_short_row_file) ''trace.txt''
   \<and> calculateTotalDuration oor_amd64 (one_file no_short_row_file) ''trace.txt''
       = (5400000000000, None, [])"
proof -
  have h1: "one_file short_row_file ''trace.txt'' = Some short_row_file"
    by (simp add: one_file_def)
  have h2: "one_file no_short_row_file ''trace.txt'' = Some no_short_row_file"
    by (simp add: one_file_def)
  have h3: "fst (scanLines (content short_row_file)) = hdr_id_duration # [row_1h] @ row_short # [row_30m]"
    by (simp add: short_row_file_def scan_eval rows_eval)
  have h4: "fst (scanLines (content no_short_row_file)) = hdr_id_duration # [row_1h] @ [row_30m]"
    by (simp add: no_short_row_file_def scan_eval rows_eval)
  have e1: "scannerErr short_row_file = None"
    by (simp add: short_row_file_def scan_eval rows_eval)
  have e2: "scannerErr no_short_row_file = None"
    by (simp add: no_short_row_file_def scan_eval rows_eval)
  have h5: "scannerErr short_row_file = scannerErr no_short_row_file"
    by (simp add: e1 e2)
  have h6: "int (length (Split row_short)) \<le> findDuration 0 (Split hdr_id_duration)"
    by (simp add: Split_rows)
  have v: "calculateTotalDuration oor_amd64 (one_file no_short_row_file) ''trace.txt''
       = (5400000000000, None, [])"
    using h4 by (simp add: calculateTotalDuration_def h2 e2 Split_rows ParseDuration_1h ParseDuration_30m)
  from calculateTotalDuration_skips_short_rows [where fs="one_file short_row_file" and filePath="''trace.txt''"
      and fs'="one_file no_short_row_file" and filePath'="''trace.txt''" and oor=oor_amd64,
      OF h1 h2 h3 h4 h5 h6] h6 v
  show ?thesis by simp
qed

text \<open>
  Claim C9, as the code has it. For every file whose first line has a field
  \<open>duration\<close>, \<open>calculateTotalDuration\<close> returns without error whatever the data lines
  hold, provided the scanner reports no error: no read fails and no line has
  \<open>MaxScanTokenSize\<close> bytes or more.
\<close>

theorem calculateTotalDuration_succeeds:
  assumes "fs filePath = Some f"
    and "fst (scanLines (content f)) = header # rows"
    and "''duration'' \<in> set (Split header)"
    and "scannerErr f = None"
  shows "fst (snd (calculateTotalDuration oor fs filePath)) = None"
proof -
  have "findDuration 0 (Split header) \<noteq> - 1"
    using assms(3) by (simp add: findDuration_present)
  then show ?thesis
    using assms(4)
    by (simp add: calculateTotalDuration_opened[where fs=fs and filePath=filePath, OF assms(1,2)]
        Let_def split: prod.splits)
qed

theorem calculateTotalDuration_succeeds_witness:
  "''duration'' \<in> set (Split hdr_id_duration)
   \<and> scannerErr bad_rows_file = None
   \<and> fst (snd (calculateTotalDuration oor_amd64 (one_file bad_rows_file) ''trace.txt'')) = None"
proof -
  have h1: "one_file bad_rows_file ''trace.txt'' = Some bad_rows_file"
    by (simp add: one_file_def)
  have h2: "fst (scanLines (content bad_rows_file)) = hdr_id_duration # [row_1h, row_xx, row_short, row_30m]"
    by (simp add: bad_rows_file_def scan_eval rows_eval)
  have h3: "''duration'' \<in> set (Split hdr_id_duration)"
    by (simp add: Split_rows)
  have h4: "scannerErr bad_rows_file = None"
    by (simp add: bad_rows_file_def scan_eval rows_eval)
  from calculateTotalDuration_succeeds [where fs="one_file bad_rows_file" and filePath="''trace.txt''"
      and oor=oor_amd64, OF h1 h2 h3 h4] h3 h4
  show ?thesis by simp
qed

lemma scanLines_long_line:
  assumes "MaxScanTokenSize \<le> n" and "c \<noteq> newline"
  shows "scanLines (replicate n c) = ([], True)"
proof -
  have "0 < n" using assms(1) by (simp add: MaxScanTokenSize_def)
  then have "replicate n c \<noteq> []" by simp
  moreover have "takeWhile (\<lambda>x. x \<noteq> newline) (replicate n c) = replicate n c"
    using assms(2) by (simp add: takeWhile_replicate)
  ultimately show ?thesis
    using assms(1) by (subst scanLines.simps) (simp add: Let_def)
qed

lemma scanLines_long_line_file:
  "scanLines (content long_line_file) = ([''duration''], True)"
proof -
  have "scanLines (replicate 65536 (CHR ''a'')) = ([], True)"
    by (rule scanLines_long_line) (simp_all add: MaxScanTokenSize_def newline_def)
  then show ?thesis
    by (subst scanLines.simps)
       (simp add: long_line_file_def newline_def MaxScanTokenSize_def dropCR_def)
qed

text \<open>
  The claim as stated fails for a data line of 65536 bytes: the header has the column,
  no read fails, and the function returns the scanner's error.
\<close>

theorem calculateTotalDuration_long_line_fails:
  "''duration'' \<in> set (Split (hd (fst (scanLines (content long_line_file)))))
   \<and> \<not> readFails long_line_file
   \<and> calculateTotalDuration oor_amd64 (one_file long_line_file) ''trace.txt''
       = (0, Some (ScanError ErrTooLong), [])"
proof -
  have "Split ''duration'' = [''duration'']"
    by (simp add: Split_def tab_def)
  then show ?thesis
    by (simp add: calculateTotalDuration_def one_file_def scannerErr_def scanLines_long_line_file)
       (simp add: long_line_file_def)
qed

section \<open>Which strings ParseDuration accepts\<close>

lemma count_list_digits: "list_all isDigit ds \<Longrightarrow> count_list ds dot = 0"
  by (induction ds) (auto simp: isDigit_not_dot)

lemma ParseFloat_ok_shape:
  assumes "snd (ParseFloat s) = None"
  shows "list_ex isDigit s \<and> count_list s dot \<le> 1"
proof -
  let ?ip = "takeWhile isDigit s" and ?r = "dropWhile isDigit s"
  have s: "s = ?ip @ ?r" by simp
  have ip: "list_all isDigit ?ip"
    by (auto simp: list_all_iff dest: set_takeWhileD)
  show ?thesis
  proof (cases "?r \<noteq> [] \<and> hd ?r = dot")
    case False
    with assms have r: "?r = []" and n: "?ip \<noteq> []"
      by (auto simp: ParseFloat_def Let_def split: if_splits)
    from r have a: "list_all isDigit s"
      by (simp add: list_all_iff)
    from n have "s \<noteq> []" by auto
    with a have "list_ex isDigit s"
      by (cases s) simp_all
    with count_list_digits[OF a] show ?thesis by simp
  next
    case True
    let ?fp = "takeWhile isDigit (tl ?r)"
    from True assms have rest: "dropWhile isDigit (tl ?r) = []" and dg: "?ip \<noteq> [] \<or> ?fp \<noteq> []"
      by (auto simp: ParseFloat_def Let_def split: if_splits)
    then have fp: "tl ?r = ?fp"
      by (metis append_Nil2 takeWhile_dropWhile_id)
    have fpd: "list_all isDigit ?fp"
      by (auto simp: list_all_iff dest: set_takeWhileD)
    from True fp have r: "?r = dot # ?fp"
      by (cases ?r) auto
    have shape: "s = ?ip @ dot # ?fp"
      using s r by metis
    have c: "count_list (?ip @ dot # ?fp) dot = 1"
      using count_list_digits[OF ip] count_list_digits[OF fpd] by simp
    have e: "list_ex isDigit (?ip @ dot # ?fp)"
      using dg ip fpd by (cases ?ip; cases ?fp) (auto simp: list_ex_iff)
    have "list_ex isDigit s \<and> count_list s dot \<le> 1"
      by (subst (1 2) shape) (simp only: c e order_refl simp_thms)
    then show ?thesis .
  qed
qed

lemma reSpace_spaceLen: "reSpace c \<Longrightarrow> 0 < spaceLen (c # cs)"
proof -
  assume "reSpace c"
  then have "byte c = byte (CHR 0x09) \<or> byte c = byte (CHR 0x0A) \<or> byte c = byte (CHR 0x0C)
      \<or> byte c = byte (CHR 0x0D) \<or> byte c = byte (CHR 0x20)"
    by (simp add: reSpace_def byte_def)
  then have "c = CHR 0x09 \<or> c = CHR 0x0A \<or> c = CHR 0x0C \<or> c = CHR 0x0D \<or> c = CHR 0x20"
    unfolding byte_def of_char_eq_iff .
  then have "[c] \<in> set spaceRunes"
    by (elim disjE) (simp_all add: spaceRunes_def)
  then show ?thesis
    unfolding spaceLen_pos_iff by (intro bexI[of _ "[c]"]) simp_all
qed

lemma spaceFree_dropWhile_reSpace:
  assumes "spaceFree t"
  shows "dropWhile reSpace (dropWhile P t) = dropWhile P t"
proof (cases "dropWhile P t")
  case Nil
  show ?thesis unfolding Nil by simp
next
  case (Cons c cs)
  let ?i = "length (takeWhile P t)"
  have d: "drop ?i t = c # cs"
    using Cons by (simp add: dropWhile_eq_drop)
  then have "?i < length t"
    by (metis drop_all list.distinct(1) not_le)
  with assms have "spaceLen (drop ?i t) = 0"
    by (simp add: spaceFree_iff)
  with d have "\<not> reSpace c"
    using reSpace_spaceLen[of c cs] by auto
  with Cons show ?thesis by simp
qed

lemma parsePart_ok_shape:
  assumes "spaceFree t" and "snd (parsePart oor t) = None"
  shows "goStd t \<or> strictToken t"
proof (cases "goStd t")
  case True
  then show ?thesis by simp
next
  case False
  then have t: "snd (time_ParseDuration t) \<noteq> None" by (simp add: goStd_def)
  let ?g1 = "takeWhile numChar t" and ?g2 = "dropWhile numChar t"
  have g2: "dropWhile reSpace ?g2 = ?g2"
    using assms(1) by (rule spaceFree_dropWhile_reSpace)
  from assms(2) have m: "FindStringSubmatch t = [t, ?g1, ?g2]" and "?g2 \<noteq> []" "list_all isAlpha ?g2"
    unfolding parsePart_regex[OF t] FindStringSubmatch_def Let_def g2
    by (auto split: if_splits)
  with assms(2) have "snd (ParseFloat ?g1) = None"
    unfolding parsePart_regex[OF t] Let_def
    by (auto split: prod.splits option.splits)
  from ParseFloat_ok_shape[OF this] \<open>?g2 \<noteq> []\<close> \<open>list_all isAlpha ?g2\<close>
  show ?thesis by (simp add: strictToken_def)
qed

lemma parsePart_error_shape:
  assumes "spaceFree t" and "parsePart oor t = (d, Some e)"
  shows "d = 0 \<and> (e = UnsupportedFormat t
            \<or> (\<exists>c. e = ValueError (takeWhile numChar t) c)
            \<or> e = UnknownTimeUnit (ToLower (dropWhile numChar t)))"
proof -
  have t: "snd (time_ParseDuration t) \<noteq> None"
    using assms(2) by (auto simp: parsePart_def split: prod.splits option.splits)
  have g2: "dropWhile reSpace (dropWhile numChar t) = dropWhile numChar t"
    using assms(1) by (rule spaceFree_dropWhile_reSpace)
  show ?thesis
    using assms(2) unfolding parsePart_regex[OF t] FindStringSubmatch_def Let_def g2
    by (auto split: if_splits prod.splits option.splits)
qed

lemma parts_loop_first_failure:
  assumes "\<exists>t \<in> set ts. snd (parsePart oor t) \<noteq> None"
  shows "\<exists>pre t post e. ts = pre @ t # post \<and> (\<forall>p \<in> set pre. snd (parsePart oor p) = None)
           \<and> snd (parsePart oor t) = Some e \<and> parts_loop oor acc ts = (0, Some e)"
  using assms
proof (induction ts arbitrary: acc)
  case Nil
  then show ?case by simp
next
  case (Cons a ts)
  obtain d r where pa: "parsePart oor a = (d, r)" by (cases "parsePart oor a")
  show ?case
  proof (cases r)
    case (Some e)
    with pa have "parts_loop oor acc (a # ts) = (0, Some e)" by simp
    with pa Some show ?thesis
      by (intro exI[of _ "[]"] exI[of _ a] exI[of _ ts] exI[of _ e]) simp
  next
    case None
    with pa Cons.prems have "\<exists>t \<in> set ts. snd (parsePart oor t) \<noteq> None" by auto
    from Cons.IH[OF this, of "acc + d"] obtain pre t post e where
      h: "ts = pre @ t # post" "\<forall>p \<in> set pre. snd (parsePart oor p) = None"
         "snd (parsePart oor t) = Some e" "parts_loop oor (acc + d) ts = (0, Some e)"
      by blast
    from pa None h(4) have "parts_loop oor acc (a # ts) = (0, Some e)" by simp
    with h pa None show ?thesis
      by (intro exI[of _ "a # pre"] exI[of _ t] exI[of _ post] exI[of _ e]) simp
  qed
qed

lemma ParseDuration_ok_tokens:
  assumes "snd (ParseDuration oor s) = None" and "t \<in> set (Fields s)"
  shows "goStd t \<or> strictToken t"
proof (cases "goStd s")
  case True
  then have sf: "spaceFree s"
    by (simp add: goStd_def time_ParseDuration_spaceFree)
  have "t = s"
  proof (cases "s = []")
    case True
    then have "Fields s = []" by (simp add: Fields_def Fields_loop.simps)
    with assms(2) show ?thesis by simp
  next
    case False
    with sf have "Fields s = [s]" by (rule Fields_spaceFree)
    with assms(2) show ?thesis by simp
  qed
  with True show ?thesis by simp
next
  case False
  then have "ParseDuration oor s = parts_loop oor 0 (Fields s)"
    by (auto simp: goStd_def ParseDuration_def split: prod.splits option.splits)
  with assms(1) have ok: "snd (parts_loop oor 0 (Fields s)) = None" by simp
  have "snd (parsePart oor t) = None"
  proof (rule ccontr)
    assume "snd (parsePart oor t) \<noteq> None"
    with assms(2) have "\<exists>t \<in> set (Fields s). snd (parsePart oor t) \<noteq> None" by blast
    from parts_loop_first_failure[OF this, of 0] ok show False by auto
  qed
  with Fields_tokens[OF assms(2)] show ?thesis
    using parsePart_ok_shape by blast
qed

text \<open>
  Claim C4, as the code has it. \<open>ParseDuration\<close> succeeds only on inputs in which every
  white-space-separated token is accepted by Go's \<open>time.ParseDuration\<close> (which admits a
  sign and several number and unit pairs) or has the strict form; an input with a
  token that is neither fails, with the error of the first token that does not parse
  and a zero duration; that error names the token, its number or its unit.
\<close>

theorem ParseDuration_accepts_only:
  "(snd (ParseDuration oor s) = None \<longrightarrow> (\<forall>t \<in> set (Fields s). goStd t \<or> strictToken t))
   \<and> ((\<exists>t \<in> set (Fields s). \<not> goStd t \<and> \<not> strictToken t) \<longrightarrow>
        (\<exists>pre t post e. Fields s = pre @ t # post
            \<and> (\<forall>p \<in> set pre. snd (parsePart oor p) = None)
            \<and> snd (parsePart oor t) = Some e
            \<and> ParseDuration oor s = (0, Some e)
            \<and> (e = UnsupportedFormat t
                \<or> (\<exists>c. e = ValueError (takeWhile numChar t) c)
                \<or> e = UnknownTimeUnit (ToLower (dropWhile numChar t)))))"
proof (intro conjI impI)
  assume "snd (ParseDuration oor s) = None"
  then show "\<forall>t \<in> set (Fields s). goStd t \<or> strictToken t"
    using ParseDuration_ok_tokens by blast
next
  assume a: "\<exists>t \<in> set (Fields s). \<not> goStd t \<and> \<not> strictToken t"
  then obtain t0 where t0: "t0 \<in> set (Fields s)" "\<not> goStd t0" "\<not> strictToken t0" by blast
  have bad: "snd (ParseDuration oor s) \<noteq> None"
    using ParseDuration_ok_tokens t0 by blast
  then have ns: "\<not> goStd s"
    by (auto simp: goStd_def ParseDuration_def split: prod.splits option.splits)
  then have pd: "ParseDuration oor s = parts_loop oor 0 (Fields s)"
    by (auto simp: goStd_def ParseDuration_def split: prod.splits option.splits)
  have "snd (parsePart oor t0) \<noteq> None"
    using parsePart_ok_shape Fields_tokens[OF t0(1)] t0(2,3) by blast
  with t0(1) have "\<exists>t \<in> set (Fields s). snd (parsePart oor t) \<noteq> None" by blast
  from parts_loop_first_failure[OF this, of 0] obtain pre t post e where
    h: "Fields s = pre @ t # post" "\<forall>p \<in> set pre. snd (parsePart oor p) = None"
       "snd (parsePart oor t) = Some e" "parts_loop oor 0 (Fields s) = (0, Some e)"
    by blast
  have "t \<in> set (Fields s)" using h(1) by simp
  then have sf: "spaceFree t" using Fields_tokens by blast
  obtain d where "parsePart oor t = (d, Some e)"
    using h(3) by (cases "parsePart oor t") auto
  from parsePart_error_shape[OF sf this]
  have "e = UnsupportedFormat t \<or> (\<exists>c. e = ValueError (takeWhile numChar t) c)
          \<or> e = UnknownTimeUnit (ToLower (dropWhile numChar t))"
    by simp
  with h pd show "\<exists>pre t post e. Fields s = pre @ t # post
            \<and> (\<forall>p \<in> set pre. snd (parsePart oor p) = None)
            \<and> snd (parsePart oor t) = Some e
            \<and> ParseDuration oor s = (0, Some e)
            \<and> (e = UnsupportedFormat t
                \<or> (\<exists>c. e = ValueError (takeWhile numChar t) c)
                \<or> e = UnknownTimeUnit (ToLower (dropWhile numChar t)))"
    by (intro exI[of _ pre] exI[of _ t] exI[of _ post] exI[of _ e]) simp
qed

lemma Fields_1h_abc: "Fields ''1h abc'' = [''1h'', ''abc'']"
  by (simp add: Fields_def Fields_loop.simps spaceLen_def spaceRunes_def)

lemma Fields_1h_5sec: "Fields ''1h 5sec'' = [''1h'', ''5sec'']"
  by (simp add: Fields_def Fields_loop.simps spaceLen_def spaceRunes_def)

lemma floor_rat_numeral: "\<lfloor>(numeral a :: rat) / numeral b\<rfloor> = numeral a div numeral b"
  by (metis floor_divide_of_int_eq of_int_numeral)

lemmas float_eval =
  round64_def flog2_def roundEven_def pow2_def fmul_def fdiv_def ofNat64_def toUint64_def
  toDuration_def compute_bitlen floor_rat_numeral Let_def

lemma ParseDuration_5sec: "ParseDuration oor ''5sec'' = (5000000000, None)"
  by (simp add: parse_eval time_eval float_eval)

theorem ParseDuration_accepts_only_witness:
  "snd (ParseDuration oor_amd64 ''1h 5sec'') = None
   \<and> Fields ''1h 5sec'' = [''1h'', ''5sec'']
   \<and> (goStd ''1h'' \<or> strictToken ''1h'') \<and> (goStd ''5sec'' \<or> strictToken ''5sec'')
   \<and> (\<exists>t \<in> set (Fields ''1h abc''). \<not> goStd t \<and> \<not> strictToken t)
   \<and> (\<exists>pre t post e. Fields ''1h abc'' = pre @ t # post
            \<and> (\<forall>p \<in> set pre. snd (parsePart oor_amd64 p) = None)
            \<and> snd (parsePart oor_amd64 t) = Some e
            \<and> ParseDuration oor_amd64 ''1h abc'' = (0, Some e)
            \<and> (e = UnsupportedFormat t
                \<or> (\<exists>c. e = ValueError (takeWhile numChar t) c)
                \<or> e = UnknownTimeUnit (ToLower (dropWhile numChar t))))"
proof -
  have t: "snd (time_ParseDuration ''1h 5sec'') \<noteq> None"
    by (rule time_ParseDuration_fields) (simp add: Fields_1h_5sec)
  have p: "parsePart oor_amd64 ''1h'' = (3600000000000, None)"
    using ParseDuration_1h[of oor_amd64]
    by (simp add: parsePart_def time_eval)
  have "spaceFree ''5sec''"
    by (simp add: spaceLen_def spaceRunes_def)
  then have q: "parsePart oor_amd64 ''5sec'' = (5000000000, None)"
    using ParseDuration_5sec[of oor_amd64] ParseDuration_token[of "''5sec''" oor_amd64] by simp
  have h1: "snd (ParseDuration oor_amd64 ''1h 5sec'') = None"
    using t by (auto simp: ParseDuration_def Fields_1h_5sec p q split: prod.splits option.splits)
  have "\<not> goStd ''abc'' \<and> \<not> strictToken ''abc''"
    by (simp add: goStd_def strictToken_def numChar_def isDigit_def dot_def byte_def time_eval)
  then have h2: "\<exists>t \<in> set (Fields ''1h abc''). \<not> goStd t \<and> \<not> strictToken t"
    by (simp add: Fields_1h_abc)
  from ParseDuration_accepts_only [of oor_amd64 "''1h 5sec''"] h1
  have "(goStd ''1h'' \<or> strictToken ''1h'') \<and> (goStd ''5sec'' \<or> strictToken ''5sec'')"
    by (simp add: Fields_1h_5sec)
  moreover from ParseDuration_accepts_only [of oor_amd64 "''1h abc''"] h2
  have "\<exists>pre t post e. Fields ''1h abc'' = pre @ t # post
            \<and> (\<forall>p \<in> set pre. snd (parsePart oor_amd64 p) = None)
            \<and> snd (parsePart oor_amd64 t) = Some e
            \<and> ParseDuration oor_amd64 ''1h abc'' = (0, Some e)
            \<and> (e = UnsupportedFormat t
                \<or> (\<exists>c. e = ValueError (takeWhile numChar t) c)
                \<or> e = UnknownTimeUnit (ToLower (dropWhile numChar t)))"
    by blast
  ultimately show ?thesis using h1 h2 Fields_1h_5sec by blast
qed

text \<open>
  The claim as stated fails at its own example: the single token \<open>1h30m\<close> holds two
  number and unit pairs and parses, to ninety minutes; so does the signed \<open>-1h\<close>.
\<close>

theorem ParseDuration_accepts_1h30m:
  "Fields ''1h30m'' = [''1h30m''] \<and> \<not> strictToken ''1h30m''
   \<and> ParseDuration oor_amd64 ''1h30m'' = (5400000000000, None)
   \<and> Fields ''-1h'' = [''-1h''] \<and> \<not> strictToken ''-1h''
   \<and> ParseDuration oor_amd64 ''-1h'' = (- 3600000000000, None)"
proof -
  have "Fields ''1h30m'' = [''1h30m'']" "Fields ''-1h'' = [''-1h'']"
    by (simp_all add: Fields_def Fields_loop.simps spaceLen_def spaceRunes_def)
  moreover have "\<not> strictToken ''1h30m''" "\<not> strictToken ''-1h''"
    by (simp_all add: strictToken_def numChar_def isDigit_def isAlpha_def isLower_def isUpper_def dot_def byte_def)
  moreover have "ParseDuration oor_amd64 ''1h30m'' = (5400000000000, None)"
    by (simp add: ParseDuration_def time_eval)
  moreover have "ParseDuration oor_amd64 ''-1h'' = (- 3600000000000, None)"
    by (simp add: ParseDuration_def time_eval)
  ultimately show ?thesis by simp
qed

section \<open>Exact cases of the float64 arithmetic\<close>

text \<open>The float64 nearest to one tenth, as a check of the rounding.\<close>

lemma round64_tenth: "round64 (1 / 10) = Finite (3602879701896397 / 36028797018963968)"
  by (simp add: float_eval)

























section \<open>Whole numbers with a unit\<close>




















text \<open>
  The micro sign: \<open>time.ParseDuration\<close> reads it in lower case; the regular expression
  admits ASCII letters only, so neither its upper-case form nor the alias of five bytes
  in the \<open>switch\<close> is ever matched.
\<close>

lemma ParseDuration_micro:
  "ParseDuration oor [CHR ''1'', CHR 0xC2, CHR 0xB5, CHR ''s''] = (1000, None)"
  by (simp add: ParseDuration_def time_eval)

lemma ParseDuration_micro_upper:
  "ParseDuration oor [CHR ''1'', CHR 0xC2, CHR 0xB5, CHR ''S'']
     = (0, Some (UnsupportedFormat [CHR ''1'', CHR 0xC2, CHR 0xB5, CHR ''S'']))"
  by (simp add: parse_eval time_eval Let_def)

lemma ParseDuration_micro_misencoded:
  "ParseDuration oor [CHR ''1'', CHR 0xC3, CHR 0x82, CHR 0xC2, CHR 0xB5, CHR ''s'']
     = (0, Some (UnsupportedFormat [CHR ''1'', CHR 0xC3, CHR 0x82, CHR 0xC2, CHR 0xB5, CHR ''s'']))"
  by (simp add: parse_eval time_eval Let_def)

section \<open>Decimal numbers with a unit\<close>
















lemma fracNanos_Nil: "fracNanos k [] = 0"
  by (simp add: fracNanos_def digitsValue_def)

lemma fracNanos_less: "fracNanos k fp < 2 ^ 64"
  by (simp add: fracNanos_def toUint64_def split: float64.splits)



























end
